theory Spec2Isabelle
  imports Main "HOL-Library.AList"
begin

section \<open>Stream lifecycle managers of the surveillance system\<close>

text \<open>
  The repository has two stream managers: \<^verbatim>\<open>AutonomousRTSPManager\<close> (HTTP proxy
  servers, one per stream, with an exclusive audio slot and a connection ceiling) and
  \<^verbatim>\<open>RTSPStreamManager\<close> (one FFmpeg process per stream). Both keep JavaScript
  \<^verbatim>\<open>Map\<close>s keyed by the stream id; a \<^verbatim>\<open>Map\<close> is modelled as an association
  list: \<open>map_of\<close> is \<^verbatim>\<open>get\<close>, \<open>AList.update\<close> is \<^verbatim>\<open>set\<close> (in place for a known
  key, appended for a new one), \<open>AList.delete\<close> is \<^verbatim>\<open>delete\<close>, \<open>length\<close> is
  \<^verbatim>\<open>size\<close>.

  Objects that closures keep a reference to (the \<^verbatim>\<open>streamData\<close> object, the proxy
  server) live in explicit stores indexed by a reference, so that a callback acting on a
  captured object is distinguished from a lookup by stream id. Timers scheduled with
  \<^verbatim>\<open>setTimeout\<close> are entries of a table of pending callbacks; \<^verbatim>\<open>clearTimeout\<close>
  removes the entry and firing a timer runs the callback the entry describes.

  Every \<^verbatim>\<open>async\<close> method is given twice. Its definition under the method's own
  name is the call run from entry to return with nothing else running in between. A call
  however runs only up to its next \<^verbatim>\<open>await\<close> and is resumed later: after
  \<^verbatim>\<open>await this.createStreamProxy\<close> when the operating system reports that the
  server listens, after an \<^verbatim>\<open>await\<close> of one of the manager's own methods once the
  code that is running has returned. Other calls and callbacks run in between. The parts
  of a call between two \<^verbatim>\<open>await\<close>s are therefore defined as well, and the
  reachable states are closed under the parts. A thrown exception is the left injection
  of the result, paired with the state at the moment of the throw.
\<close>

subsection \<open>Shared vocabulary\<close>

type_synonym streamId = string
type_synonym ref = nat
type_synonym timerId = nat
type_synonym socketId = nat

record camera =
  cam_id :: string
  camera_name :: string
  rtsp_link :: "string option"
  rtsp_link_high :: "string option"
  rtsp_hd_link :: "string option"

datatype error =
    CapacityExceeded nat
  | ProxyServerError
  | StreamNotFound streamId
  | ReferenceError string
  | AudioFailure
  | RtspUrlMissing
  | ConnectionTimeout
  | ConnectionFailed
  | FFmpegExited int
  | ProcessError

datatype event =
    StreamConnected streamId
  | StreamError streamId error nat
  | StreamFailed streamId
  | StreamStartError error
  | AudioStarted streamId
  | AudioStopped streamId
  | AudioError streamId error

datatype status = Connecting | Streaming

datatype streamType = MJPEG | H264 | MP4

text \<open>The template literal \<^verbatim>\<open>`${camera.id}_${quality}`\<close>; \<open>cam_id\<close> is the
  camera id as the template renders it.\<close>

definition streamKey :: "string \<Rightarrow> string \<Rightarrow> streamId" where
  "streamKey cameraId quality = cameraId @ ''_'' @ quality"

text \<open>JavaScript truthiness of an optional string: \<^verbatim>\<open>undefined\<close>, \<^verbatim>\<open>null\<close> and
  the empty string are falsy.\<close>

definition truthy :: "string option \<Rightarrow> bool" where
  "truthy v = (case v of None \<Rightarrow> False | Some t \<Rightarrow> t \<noteq> [])"

subsection \<open>AutonomousRTSPManager: state\<close>

record config =
  maxRetries :: nat
  retryInterval :: nat
  connectionTimeout :: nat
  proxyPort :: nat
  maxConnections :: nat

definition default_config :: config where
  "default_config = \<lparr> maxRetries = 5, retryInterval = 30000, connectionTimeout = 15000,
     proxyPort = 8080, maxConnections = 250 \<rparr>"

record streamData =
  sd_id :: streamId
  sd_camera :: camera
  sd_quality :: string
  sd_streamUrl :: "string option"
  sd_streamInfo :: streamType
  sd_proxyServer :: ref
  sd_proxyPort :: nat
  sd_status :: status
  sd_includeAudio :: bool
  bytesTransferred :: int
  clientsConnected :: int

record proxyServer =
  srv_port :: nat
  srv_listening :: bool

text \<open>The two callbacks the manager hands to \<^verbatim>\<open>setTimeout\<close>, with the variables
  each closure captures: the connection emulation of \<^verbatim>\<open>startStream\<close> (the
  \<^verbatim>\<open>streamData\<close> object, \<^verbatim>\<open>streamId\<close>, \<^verbatim>\<open>camera\<close>) and the reconnection of
  \<^verbatim>\<open>handleStreamError\<close> (\<^verbatim>\<open>streamId\<close>, \<^verbatim>\<open>camera\<close>, \<^verbatim>\<open>attempts\<close>).\<close>

datatype timerAction =
    ConnectedTimer ref streamId camera
  | ReconnectTimer streamId camera nat

record manager =
  activeStreams :: "(streamId \<times> ref) list"
  objects :: "(ref \<times> streamData) list"
  servers :: "(ref \<times> proxyServer) list"
  connectionAttempts :: "(streamId \<times> nat) list"
  reconnectTimers :: "(streamId \<times> timerId) list"
  audioStreams :: "(streamId \<times> string \<times> bool) list"
  currentAudioStream :: "streamId option"
  config :: config
  nextProxyPort :: nat
  timers :: "(timerId \<times> timerAction) list"
  nextTimer :: timerId
  sockets :: "(socketId \<times> ref) list"
  nextSocket :: socketId
  events :: "event list"

text \<open>The constructor; \<open>new_manager\<close> is the manager as the source configures it.\<close>

definition manager_init :: "config \<Rightarrow> manager" where
  "manager_init cfg = \<lparr> activeStreams = [], objects = [], servers = [],
     connectionAttempts = [], reconnectTimers = [], audioStreams = [],
     currentAudioStream = None, config = cfg, nextProxyPort = proxyPort cfg,
     timers = [], nextTimer = 0, sockets = [], nextSocket = 0, events = [] \<rparr>"

definition new_manager :: manager where
  "new_manager = manager_init default_config"

definition emit :: "event \<Rightarrow> manager \<Rightarrow> manager" where
  "emit e s = s\<lparr> events := events s @ [e] \<rparr>"

definition setTimeout :: "timerAction \<Rightarrow> manager \<Rightarrow> timerId \<times> manager" where
  "setTimeout act s =
     (nextTimer s, s\<lparr> timers := AList.update (nextTimer s) act (timers s),
                       nextTimer := nextTimer s + 1 \<rparr>)"

definition clearTimeout :: "timerId \<Rightarrow> manager \<Rightarrow> manager" where
  "clearTimeout t s = s\<lparr> timers := AList.delete t (timers s) \<rparr>"

text \<open>A status query's \<^verbatim>\<open>hasAudio\<close> and \<^verbatim>\<open>isCurrentAudio\<close> (\<^verbatim>\<open>getStreamStatus\<close>).\<close>

definition hasAudio :: "manager \<Rightarrow> streamId \<Rightarrow> bool" where
  "hasAudio s streamId = (map_of (audioStreams s) streamId \<noteq> None)"

definition isCurrentAudio :: "manager \<Rightarrow> streamId \<Rightarrow> bool" where
  "isCurrentAudio s streamId = (currentAudioStream s = Some streamId)"

subsection \<open>AutonomousRTSPManager: audio\<close>

definition stopAudioStream :: "streamId \<Rightarrow> manager \<Rightarrow> manager" where
  "stopAudioStream streamId s =
     (let s1 = s\<lparr> audioStreams := AList.delete streamId (audioStreams s) \<rparr>
      in if currentAudioStream s1 = Some streamId
         then s1\<lparr> currentAudioStream := None \<rparr> else s1)"

definition startAudioStream :: "streamData \<Rightarrow> manager \<Rightarrow> (error + string) \<times> manager" where
  "startAudioStream sd s =
     (let s1 = (case currentAudioStream s of
                  None \<Rightarrow> s
                | Some cur \<Rightarrow> if cur \<noteq> [] \<and> cur \<noteq> sd_id sd
                              then stopAudioStream cur s else s);
          audioUrl = ''/audio_demo/'' @ sd_id sd;
          s2 = s1\<lparr> currentAudioStream := Some (sd_id sd) \<rparr>;
          s3 = s2\<lparr> audioStreams := AList.update (sd_id sd) (audioUrl, True) (audioStreams s2) \<rparr>
      in (Inr audioUrl, s3))"

text \<open>\<^verbatim>\<open>toggleAudio\<close> calls \<^verbatim>\<open>this.startAudioStream\<close> inside \<^verbatim>\<open>try/catch\<close>; the
  callee is a parameter of \<open>toggleAudio_with\<close> so that the \<^verbatim>\<open>catch\<close> branch is part
  of the model, and \<open>toggleAudio\<close> is the method with the class's own callee.\<close>

definition toggleAudio_with ::
  "(streamData \<Rightarrow> manager \<Rightarrow> (error + string) \<times> manager) \<Rightarrow>
   string \<Rightarrow> string \<Rightarrow> manager \<Rightarrow> (error + bool) \<times> manager" where
  "toggleAudio_with start cameraId quality s =
     (let streamId = streamKey cameraId quality in
      case map_of (activeStreams s) streamId of
        None \<Rightarrow> (Inl (StreamNotFound streamId), s)
      | Some r \<Rightarrow>
          (case map_of (objects s) r of
             None \<Rightarrow> (Inl (StreamNotFound streamId), s)
           | Some sd \<Rightarrow>
               if currentAudioStream s = Some streamId
               then (Inr False, emit (AudioStopped streamId) (stopAudioStream streamId s))
               else (case start sd s of
                       (Inr audioUrl, s1) \<Rightarrow> (Inr True, emit (AudioStarted streamId) s1)
                     | (Inl e, s1) \<Rightarrow> (Inr False, emit (AudioError streamId e) s1))))"

definition toggleAudio :: "string \<Rightarrow> string \<Rightarrow> manager \<Rightarrow> (error + bool) \<times> manager" where
  "toggleAudio = toggleAudio_with startAudioStream"

subsection \<open>AutonomousRTSPManager: stopping and error handling\<close>

definition closeServer :: "ref \<Rightarrow> manager \<Rightarrow> manager" where
  "closeServer p s =
     (case map_of (servers s) p of
        None \<Rightarrow> s
      | Some srv \<Rightarrow> s\<lparr> servers := AList.update p (srv\<lparr> srv_listening := False \<rparr>) (servers s) \<rparr>)"

definition stopStream :: "streamId \<Rightarrow> manager \<Rightarrow> manager" where
  "stopStream streamId s =
     (case map_of (activeStreams s) streamId of
        None \<Rightarrow> s
      | Some r \<Rightarrow>
          (let s1 = (case map_of (objects s) r of
                       None \<Rightarrow> s
                     | Some sd \<Rightarrow> closeServer (sd_proxyServer sd) s);
               s2 = (if map_of (audioStreams s1) streamId \<noteq> None
                     then stopAudioStream streamId s1 else s1);
               s3 = s2\<lparr> activeStreams := AList.delete streamId (activeStreams s2) \<rparr>;
               s4 = s3\<lparr> connectionAttempts := AList.delete streamId (connectionAttempts s3) \<rparr>
           in case map_of (reconnectTimers s4) streamId of
                None \<Rightarrow> s4
              | Some t \<Rightarrow>
                  (clearTimeout t s4)\<lparr> reconnectTimers :=
                     AList.delete streamId (reconnectTimers s4) \<rparr>))"

text \<open>\<^verbatim>\<open>this.connectionAttempts.get(streamId) || 0\<close>.\<close>

definition attemptsOf :: "(streamId \<times> nat) list \<Rightarrow> streamId \<Rightarrow> nat" where
  "attemptsOf attempts streamId =
     (case map_of attempts streamId of None \<Rightarrow> 0 | Some n \<Rightarrow> n)"

definition handleStreamError :: "streamId \<Rightarrow> camera \<Rightarrow> error \<Rightarrow> manager \<Rightarrow> manager" where
  "handleStreamError streamId cam err s =
     (let attempts = attemptsOf (connectionAttempts s) streamId + 1;
          s1 = s\<lparr> connectionAttempts := AList.update streamId attempts (connectionAttempts s) \<rparr>;
          s2 = emit (StreamError streamId err attempts) s1
      in if attempts \<ge> maxRetries (config s2)
         then stopStream streamId (emit (StreamFailed streamId) s2)
         else (case setTimeout (ReconnectTimer streamId cam attempts) s2 of
                 (timer, s3) \<Rightarrow>
                   s3\<lparr> reconnectTimers := AList.update streamId timer (reconnectTimers s3) \<rparr>))"

subsection \<open>AutonomousRTSPManager: starting\<close>

definition selectStreamUrl :: "camera \<Rightarrow> string \<Rightarrow> string option" where
  "selectStreamUrl cam quality =
     (if quality = ''high''
      then (if truthy (rtsp_link_high cam) then rtsp_link_high cam else rtsp_link cam)
      else rtsp_link cam)"

text \<open>\<^verbatim>\<open>createStreamProxy\<close> takes the next port, creates the server and resolves with it
  once it listens, or rejects with the server's error. Whether \<^verbatim>\<open>listen\<close> succeeds is
  decided outside the program and is the argument \<open>listens\<close>.\<close>

definition createStreamProxy :: "bool \<Rightarrow> manager \<Rightarrow> (error + ref) \<times> manager" where
  "createStreamProxy listens s =
     (let port = nextProxyPort s;
          s1 = s\<lparr> nextProxyPort := nextProxyPort s + 1 \<rparr>;
          p = length (servers s1);
          s2 = s1\<lparr> servers := AList.update p \<lparr> srv_port = port, srv_listening = listens \<rparr>
                                  (servers s1) \<rparr>
      in if listens then (Inr p, s2) else (Inl ProxyServerError, s2))"

text \<open>\<^verbatim>\<open>startStream\<close>. The result of \<^verbatim>\<open>analyzeStreamType\<close> (which only inspects the
  URL and never throws) is the argument \<open>info\<close>. \<open>startStream_catch\<close> is the
  \<^verbatim>\<open>catch\<close> block. The \<^verbatim>\<open>startTime\<close> field, a clock reading, is left out.\<close>

definition startStream_catch ::
  "streamId \<Rightarrow> camera \<Rightarrow> error \<Rightarrow> manager \<Rightarrow> (error + streamId) \<times> manager" where
  "startStream_catch streamId cam err s = (Inl err, handleStreamError streamId cam err s)"

definition startStream ::
  "camera \<Rightarrow> string \<Rightarrow> bool \<Rightarrow> streamType \<Rightarrow> bool \<Rightarrow> manager \<Rightarrow> (error + streamId) \<times> manager" where
  "startStream cam quality includeAudio info listens s =
     (let streamId = streamKey (cam_id cam) quality;
          s1 = (if map_of (activeStreams s) streamId \<noteq> None then stopStream streamId s else s)
      in if length (activeStreams s1) \<ge> maxConnections (config s1)
         then startStream_catch streamId cam (CapacityExceeded (maxConnections (config s1))) s1
         else
           (let streamUrl = selectStreamUrl cam quality in
            case createStreamProxy listens s1 of
              (Inl e, s2) \<Rightarrow> startStream_catch streamId cam e s2
            | (Inr p, s2) \<Rightarrow>
                (let r = length (objects s2);
                     sd = \<lparr> sd_id = streamId, sd_camera = cam, sd_quality = quality,
                            sd_streamUrl = streamUrl, sd_streamInfo = info,
                            sd_proxyServer = p,
                            sd_proxyPort = (case map_of (servers s2) p of
                                              None \<Rightarrow> 0 | Some srv \<Rightarrow> srv_port srv),
                            sd_status = Connecting, sd_includeAudio = includeAudio,
                            bytesTransferred = 0, clientsConnected = 0 \<rparr>;
                     s3 = s2\<lparr> objects := AList.update r sd (objects s2),
                              activeStreams := AList.update streamId r (activeStreams s2) \<rparr>;
                     s4 = s3\<lparr> connectionAttempts :=
                                AList.update streamId 0 (connectionAttempts s3) \<rparr>
                 in case (if includeAudio then startAudioStream sd s4 else (Inr [], s4)) of
                      (Inl e, s5) \<Rightarrow> startStream_catch streamId cam e s5
                    | (Inr u, s5) \<Rightarrow>
                        (Inr streamId, snd (setTimeout (ConnectedTimer r streamId cam) s5)))))"

definition stopAllStreams :: "manager \<Rightarrow> manager" where
  "stopAllStreams s =
     (fold stopStream (map fst (activeStreams s)) s)\<lparr> nextProxyPort := proxyPort (config s) \<rparr>"

subsection \<open>AutonomousRTSPManager: callbacks\<close>

text \<open>The connection emulation scheduled by \<^verbatim>\<open>startStream\<close>: it writes to the
  \<^verbatim>\<open>streamData\<close> object it captured (whether or not that object is still in
  \<^verbatim>\<open>activeStreams\<close>) and emits \<^verbatim>\<open>streamConnected\<close>.\<close>

definition connectedCallback :: "ref \<Rightarrow> streamId \<Rightarrow> camera \<Rightarrow> manager \<Rightarrow> manager" where
  "connectedCallback r streamId cam s =
     emit (StreamConnected streamId)
       (case map_of (objects s) r of
          None \<Rightarrow> s
        | Some sd \<Rightarrow> s\<lparr> objects := AList.update r (sd\<lparr> sd_status := Streaming \<rparr>) (objects s) \<rparr>)"

text \<open>The reconnection scheduled by \<^verbatim>\<open>handleStreamError\<close> is
  \<^verbatim>\<open>this.startStream(camera, streamData?.quality || 'low')\<close>. The arguments are
  evaluated before the call. The identifier \<^verbatim>\<open>streamData\<close> is bound neither in the
  callback, nor in \<^verbatim>\<open>handleStreamError\<close> (whose bindings are \<^verbatim>\<open>streamId\<close>,
  \<^verbatim>\<open>camera\<close>, \<^verbatim>\<open>error\<close>, \<^verbatim>\<open>attempts\<close>, \<^verbatim>\<open>timer\<close>), nor at module level (the
  imports and the class), and optional chaining does not guard an unbound identifier: the
  evaluation throws a \<^verbatim>\<open>ReferenceError\<close> and \<^verbatim>\<open>startStream\<close> is not called.\<close>

definition handleStreamError_scope :: "string list" where
  "handleStreamError_scope =
     [''timer'', ''attempts'', ''streamId'', ''camera'', ''error'',
      ''EventEmitter'', ''http'', ''https'', ''URL'', ''fs'', ''path'', ''AutonomousRTSPManager'']"

definition evalIdentifier :: "string \<Rightarrow> string list \<Rightarrow> error + string" where
  "evalIdentifier name scope = (if name \<in> set scope then Inr name else Inl (ReferenceError name))"

definition reconnectCallback ::
  "streamId \<Rightarrow> camera \<Rightarrow> nat \<Rightarrow> manager \<Rightarrow> (error + unit) \<times> manager" where
  "reconnectCallback streamId cam attempts s =
     (case evalIdentifier ''streamData'' handleStreamError_scope of
        Inl e \<Rightarrow> (Inl e, s)
      | Inr v \<Rightarrow> (Inr (), s))"

definition fireTimer :: "timerId \<Rightarrow> manager \<Rightarrow> (error + unit) \<times> manager" where
  "fireTimer t s =
     (case map_of (timers s) t of
        None \<Rightarrow> (Inr (), s)
      | Some act \<Rightarrow>
          (let s1 = s\<lparr> timers := AList.delete t (timers s) \<rparr>
           in case act of
                ConnectedTimer r streamId cam \<Rightarrow> (Inr (), connectedCallback r streamId cam s1)
              | ReconnectTimer streamId cam attempts \<Rightarrow>
                  reconnectCallback streamId cam attempts s1))"

subsection \<open>AutonomousRTSPManager: the proxy server's handlers\<close>

definition bumpClients :: "ref \<Rightarrow> int \<Rightarrow> manager \<Rightarrow> manager" where
  "bumpClients r d s =
     (case map_of (objects s) r of
        None \<Rightarrow> s
      | Some sd \<Rightarrow> s\<lparr> objects :=
          AList.update r (sd\<lparr> clientsConnected := clientsConnected sd + d \<rparr>) (objects s) \<rparr>)"

text \<open>The \<^verbatim>\<open>'connection'\<close> handler of the proxy server created for \<open>streamId\<close>:
  it looks the record up by id and, if there is one, counts the client and registers the
  socket's \<^verbatim>\<open>'close'\<close> handler, which captures the object found. The model numbers
  the sockets.\<close>

definition proxyConnection :: "streamId \<Rightarrow> manager \<Rightarrow> manager" where
  "proxyConnection streamId s =
     (let sock = nextSocket s; s0 = s\<lparr> nextSocket := nextSocket s + 1 \<rparr>
      in case map_of (activeStreams s0) streamId of
           None \<Rightarrow> s0
         | Some r \<Rightarrow> (bumpClients r 1 s0)\<lparr> sockets := AList.update sock r (sockets s0) \<rparr>)"

definition socketClose :: "socketId \<Rightarrow> manager \<Rightarrow> manager" where
  "socketClose sock s =
     (case map_of (sockets s) sock of
        None \<Rightarrow> s
      | Some r \<Rightarrow> (bumpClients r (- 1) s)\<lparr> sockets := AList.delete sock (sockets s) \<rparr>)"

datatype response = NotFound404 | Options200 | ServeMJPEG ref | ServeMP4 ref | ServeGeneric ref

text \<open>\<^verbatim>\<open>handleProxyRequest\<close> up to the hand-over to the handler of the stream type;
  \<open>isOptions\<close> is \<^verbatim>\<open>req.method === 'OPTIONS'\<close>.\<close>

definition handleProxyRequest :: "bool \<Rightarrow> streamId \<Rightarrow> streamType \<Rightarrow> manager \<Rightarrow> response" where
  "handleProxyRequest isOptions streamId info s =
     (case map_of (activeStreams s) streamId of
        None \<Rightarrow> NotFound404
      | Some r \<Rightarrow>
          if isOptions then Options200
          else if info = MJPEG then ServeMJPEG r
          else if info = MP4 then ServeMP4 r
          else ServeGeneric r)"

subsection \<open>AutonomousRTSPManager: the parts of a call between two awaits\<close>

text \<open>\<^verbatim>\<open>startAudioStream\<close> awaits \<^verbatim>\<open>stopAudioStream\<close> (line 540) when another
  stream holds the audio, and is resumed with the assignments of lines 545 and 546. When
  the test of line 539 fails there is no \<^verbatim>\<open>await\<close>, and the first part runs to the
  return.\<close>

definition startAudioStream_suspends :: "streamData \<Rightarrow> manager \<Rightarrow> bool" where
  "startAudioStream_suspends sd s =
     (case currentAudioStream s of
        None \<Rightarrow> False
      | Some cur \<Rightarrow> cur \<noteq> [] \<and> cur \<noteq> sd_id sd)"

definition startAudioStream_acquire :: "streamData \<Rightarrow> manager \<Rightarrow> manager" where
  "startAudioStream_acquire sd s =
     (let audioUrl = ''/audio_demo/'' @ sd_id sd;
          s2 = s\<lparr> currentAudioStream := Some (sd_id sd) \<rparr>
      in s2\<lparr> audioStreams := AList.update (sd_id sd) (audioUrl, True) (audioStreams s2) \<rparr>)"

definition startAudioStream_begin :: "streamData \<Rightarrow> manager \<Rightarrow> manager" where
  "startAudioStream_begin sd s =
     (case currentAudioStream s of
        None \<Rightarrow> startAudioStream_acquire sd s
      | Some cur \<Rightarrow> if cur \<noteq> [] \<and> cur \<noteq> sd_id sd
                    then stopAudioStream cur s
                    else startAudioStream_acquire sd s)"

text \<open>\<^verbatim>\<open>toggleAudio\<close> up to its \<^verbatim>\<open>await\<close> (line 515 or line 523); the value is
  what the call is going to return. After the \<^verbatim>\<open>await\<close> the call emits its event
  (line 517 or line 525), in the second case once \<^verbatim>\<open>startAudioStream\<close> has been
  resumed and has returned.\<close>

definition toggleAudio_begin :: "string \<Rightarrow> string \<Rightarrow> manager \<Rightarrow> (error + bool) \<times> manager" where
  "toggleAudio_begin cameraId quality s =
     (let streamId = streamKey cameraId quality in
      case map_of (activeStreams s) streamId of
        None \<Rightarrow> (Inl (StreamNotFound streamId), s)
      | Some r \<Rightarrow>
          (case map_of (objects s) r of
             None \<Rightarrow> (Inl (StreamNotFound streamId), s)
           | Some sd \<Rightarrow>
               if currentAudioStream s = Some streamId
               then (Inr False, stopAudioStream streamId s)
               else (Inr True, startAudioStream_begin sd s)))"

text \<open>\<^verbatim>\<open>stopStream\<close> awaits \<^verbatim>\<open>stopAudioStream\<close> (line 628) when the stream has an
  audio entry, and is resumed with lines 631 to 638; without an audio entry it runs to
  its end.\<close>

definition stopStream_suspends :: "streamId \<Rightarrow> manager \<Rightarrow> bool" where
  "stopStream_suspends streamId s =
     (map_of (activeStreams s) streamId \<noteq> None \<and> map_of (audioStreams s) streamId \<noteq> None)"

definition stopStream_rest :: "streamId \<Rightarrow> manager \<Rightarrow> manager" where
  "stopStream_rest streamId s =
     (let s3 = s\<lparr> activeStreams := AList.delete streamId (activeStreams s) \<rparr>;
          s4 = s3\<lparr> connectionAttempts := AList.delete streamId (connectionAttempts s3) \<rparr>
      in case map_of (reconnectTimers s4) streamId of
           None \<Rightarrow> s4
         | Some t \<Rightarrow>
             (clearTimeout t s4)\<lparr> reconnectTimers :=
                AList.delete streamId (reconnectTimers s4) \<rparr>)"

definition stopStream_begin :: "streamId \<Rightarrow> manager \<Rightarrow> manager" where
  "stopStream_begin streamId s =
     (case map_of (activeStreams s) streamId of
        None \<Rightarrow> s
      | Some r \<Rightarrow>
          (let s1 = (case map_of (objects s) r of
                       None \<Rightarrow> s
                     | Some sd \<Rightarrow> closeServer (sd_proxyServer sd) s)
           in if map_of (audioStreams s1) streamId \<noteq> None
              then stopAudioStream streamId s1
              else stopStream_rest streamId s1))"

text \<open>\<^verbatim>\<open>handleStreamError\<close> is not \<^verbatim>\<open>async\<close> and does not await the
  \<^verbatim>\<open>stopStream\<close> it calls (line 655): of that call the part up to its \<^verbatim>\<open>await\<close>
  runs within the handler.\<close>

definition handleStreamError_begin :: "streamId \<Rightarrow> camera \<Rightarrow> error \<Rightarrow> manager \<Rightarrow> manager" where
  "handleStreamError_begin streamId cam err s =
     (let attempts = attemptsOf (connectionAttempts s) streamId + 1;
          s1 = s\<lparr> connectionAttempts := AList.update streamId attempts (connectionAttempts s) \<rparr>;
          s2 = emit (StreamError streamId err attempts) s1
      in if attempts \<ge> maxRetries (config s2)
         then stopStream_begin streamId (emit (StreamFailed streamId) s2)
         else (case setTimeout (ReconnectTimer streamId cam attempts) s2 of
                 (timer, s3) \<Rightarrow>
                   s3\<lparr> reconnectTimers := AList.update streamId timer (reconnectTimers s3) \<rparr>))"

text \<open>\<^verbatim>\<open>startStream\<close> has five parts. It begins with \<^verbatim>\<open>stopStream\<close> for a key
  that has a record (line 72), which is \<open>stopStream_begin\<close> and, if that call was
  suspended, \<open>stopStream_rest\<close>. \<open>startStream_check\<close> is the ceiling test of line 76, up
  to \<^verbatim>\<open>await this.analyzeStreamType\<close> (line 88) or through the \<^verbatim>\<open>catch\<close> block.
  \<open>createStreamProxy_begin\<close> is the body of \<^verbatim>\<open>createStreamProxy\<close> (lines 184 to
  210): it takes the port and creates the server, which does not listen yet; the promise
  is settled by the server's \<^verbatim>\<open>listening\<close> or \<^verbatim>\<open>error\<close> callback.
  \<open>startStream_listened\<close> begins with that callback and runs lines 94 to 123, or the
  \<^verbatim>\<open>catch\<close> block; with \<^verbatim>\<open>includeAudio\<close> it stops at
  \<^verbatim>\<open>await this.startAudioStream\<close> (line 114) and \<open>startStream_finish\<close> (lines 118
  to 123) follows once \<^verbatim>\<open>startAudioStream\<close> has returned.\<close>

definition startStream_check :: "camera \<Rightarrow> string \<Rightarrow> manager \<Rightarrow> (error + unit) \<times> manager" where
  "startStream_check cam quality s =
     (let streamId = streamKey (cam_id cam) quality in
      if length (activeStreams s) \<ge> maxConnections (config s)
      then (Inl (CapacityExceeded (maxConnections (config s))),
            handleStreamError_begin streamId cam (CapacityExceeded (maxConnections (config s))) s)
      else (Inr (), s))"

definition createStreamProxy_begin :: "manager \<Rightarrow> ref \<times> manager" where
  "createStreamProxy_begin s =
     (let port = nextProxyPort s;
          s1 = s\<lparr> nextProxyPort := nextProxyPort s + 1 \<rparr>;
          p = length (servers s1)
      in (p, s1\<lparr> servers := AList.update p \<lparr> srv_port = port, srv_listening = False \<rparr>
                               (servers s1) \<rparr>))"

definition startStream_finish :: "ref \<Rightarrow> streamId \<Rightarrow> camera \<Rightarrow> manager \<Rightarrow> manager" where
  "startStream_finish r streamId cam s = snd (setTimeout (ConnectedTimer r streamId cam) s)"

definition startStream_listened ::
  "ref \<Rightarrow> camera \<Rightarrow> string \<Rightarrow> bool \<Rightarrow> streamType \<Rightarrow> bool \<Rightarrow> manager \<Rightarrow> (error + ref) \<times> manager" where
  "startStream_listened p cam quality includeAudio info listens s =
     (let streamId = streamKey (cam_id cam) quality in
      if \<not> listens
      then (Inl ProxyServerError, handleStreamError_begin streamId cam ProxyServerError s)
      else
        (let s2 = (case map_of (servers s) p of
                     None \<Rightarrow> s
                   | Some srv \<Rightarrow>
                       s\<lparr> servers := AList.update p (srv\<lparr> srv_listening := True \<rparr>) (servers s) \<rparr>);
             r = length (objects s2);
             sd = \<lparr> sd_id = streamId, sd_camera = cam, sd_quality = quality,
                    sd_streamUrl = selectStreamUrl cam quality, sd_streamInfo = info,
                    sd_proxyServer = p,
                    sd_proxyPort = (case map_of (servers s2) p of
                                      None \<Rightarrow> 0 | Some srv \<Rightarrow> srv_port srv),
                    sd_status = Connecting, sd_includeAudio = includeAudio,
                    bytesTransferred = 0, clientsConnected = 0 \<rparr>;
             s3 = s2\<lparr> objects := AList.update r sd (objects s2),
                      activeStreams := AList.update streamId r (activeStreams s2) \<rparr>;
             s4 = s3\<lparr> connectionAttempts :=
                        AList.update streamId 0 (connectionAttempts s3) \<rparr>
         in (Inr r, if includeAudio then startAudioStream_begin sd s4
                    else startStream_finish r streamId cam s4)))"

text \<open>\<^verbatim>\<open>stopAllStreams\<close> calls \<^verbatim>\<open>stopStream\<close> for every key of the moment (each
  call runs up to its \<^verbatim>\<open>await\<close>), awaits them all (line 676) and resets the port
  counter (line 679).\<close>

definition stopAllStreams_begin :: "manager \<Rightarrow> manager" where
  "stopAllStreams_begin s = fold stopStream_begin (map fst (activeStreams s)) s"

definition stopAllStreams_reset :: "manager \<Rightarrow> manager" where
  "stopAllStreams_reset s = s\<lparr> nextProxyPort := proxyPort (config s) \<rparr>"

subsection \<open>AutonomousRTSPManager: reachable states\<close>

text \<open>What the HTTP layer calls and what the environment delivers, each as a whole.\<close>

datatype action =
    StartStream camera string bool streamType bool
  | StopStream streamId
  | StopAllStreams
  | ToggleAudio string string
  | FireTimer timerId
  | ProxyConnection streamId
  | SocketClose socketId

fun exec :: "action \<Rightarrow> manager \<Rightarrow> manager" where
  "exec (StartStream cam quality includeAudio info listens) s =
     snd (startStream cam quality includeAudio info listens s)"
| "exec (StopStream streamId) s = stopStream streamId s"
| "exec StopAllStreams s = stopAllStreams s"
| "exec (ToggleAudio cameraId quality) s = snd (toggleAudio cameraId quality s)"
| "exec (FireTimer t) s = snd (fireTimer t s)"
| "exec (ProxyConnection streamId) s = proxyConnection streamId s"
| "exec (SocketClose sock) s = socketClose sock s"

text \<open>The parts of the calls. A part that resumes a call acts on what the call holds
  at that point: the server whose callback it is, the stream object that
  \<^verbatim>\<open>startAudioStream\<close> was called with.\<close>

datatype part =
    StopStream_begin streamId
  | StopStream_rest streamId
  | StartStream_check camera string
  | CreateStreamProxy_begin
  | StartStream_listened ref camera string bool streamType bool
  | StartStream_finish ref streamId camera
  | StartAudioStream_acquire ref
  | ToggleAudio_begin string string
  | ToggleAudio_stopped streamId
  | ToggleAudio_started streamId
  | StopAllStreams_begin
  | StopAllStreams_reset

fun run :: "part \<Rightarrow> manager \<Rightarrow> manager" where
  "run (StopStream_begin streamId) s = stopStream_begin streamId s"
| "run (StopStream_rest streamId) s = stopStream_rest streamId s"
| "run (StartStream_check cam quality) s = snd (startStream_check cam quality s)"
| "run CreateStreamProxy_begin s = snd (createStreamProxy_begin s)"
| "run (StartStream_listened p cam quality includeAudio info listens) s =
     (case map_of (servers s) p of
        None \<Rightarrow> s
      | Some srv \<Rightarrow> snd (startStream_listened p cam quality includeAudio info listens s))"
| "run (StartStream_finish r streamId cam) s = startStream_finish r streamId cam s"
| "run (StartAudioStream_acquire r) s =
     (case map_of (objects s) r of
        None \<Rightarrow> s
      | Some sd \<Rightarrow> startAudioStream_acquire sd s)"
| "run (ToggleAudio_begin cameraId quality) s = snd (toggleAudio_begin cameraId quality s)"
| "run (ToggleAudio_stopped streamId) s = emit (AudioStopped streamId) s"
| "run (ToggleAudio_started streamId) s = emit (AudioStarted streamId) s"
| "run StopAllStreams_begin s = stopAllStreams_begin s"
| "run StopAllStreams_reset s = stopAllStreams_reset s"

text \<open>The reachable states are closed under the whole calls and callbacks and under
  every part by itself. A part is allowed in every state, also where no call waits to be
  resumed with it, so every order in which the program can run the parts of overlapping
  calls is among the orders considered, and what holds in every reachable state holds in
  every state of the program.\<close>

inductive reachable :: "manager \<Rightarrow> bool" where
  reachable_init: "reachable (manager_init cfg)"
| reachable_step: "reachable s \<Longrightarrow> reachable (exec a s)"
| reachable_part: "reachable s \<Longrightarrow> reachable (run p s)"

section \<open>RTSPStreamManager\<close>

text \<open>
  The FFmpeg-based manager. A stream's record holds its child process; the handlers that
  \<^verbatim>\<open>setupFFmpegHandlers\<close> registers on the process capture \<^verbatim>\<open>streamId\<close>,
  \<^verbatim>\<open>camera\<close> and the \<^verbatim>\<open>streamData\<close> object of that moment, which the process entry
  keeps as \<open>pr_streamId\<close>, \<open>pr_camera\<close> and \<open>pr_streamData\<close>. The process entry also
  keeps the three arguments of \<^verbatim>\<open>buildFFmpegArgs\<close> in place of the argument list
  built from them. \<^verbatim>\<open>cleanupStreamFiles\<close> only deletes files of the output directory
  and swallows its own exceptions; it has no effect on the manager and is left out.
\<close>

datatype signal = SIGTERM | SIGKILL

record ffProcess =
  pr_rtspUrl :: string
  pr_streamId :: streamId
  pr_quality :: string
  pr_camera :: camera
  pr_streamData :: ref
  pr_killed :: bool
  pr_signals :: "signal list"

record ffStream =
  ff_process :: ref
  ff_camera :: camera
  ff_quality :: string
  ff_status :: status
  ff_connectionTimer :: "timerId option"

text \<open>The callbacks handed to \<^verbatim>\<open>setTimeout\<close>: the connection timeout of
  \<^verbatim>\<open>startStream\<close>, the reconnection of \<^verbatim>\<open>handleStreamError\<close> (which captures the
  \<^verbatim>\<open>streamData\<close> object) and the forced kill of \<^verbatim>\<open>stopStream\<close>.\<close>

datatype rsm_timerAction =
    ConnectionTimer streamId camera
  | RetryTimer streamId ref
  | KillTimer ref

record rsm_config =
  rsm_maxRetries :: nat
  rsm_retryInterval :: nat
  rsm_connectionTimeout :: nat

definition rsm_default_config :: rsm_config where
  "rsm_default_config =
     \<lparr> rsm_maxRetries = 5, rsm_retryInterval = 30000, rsm_connectionTimeout = 10000 \<rparr>"

record rsm =
  rsm_activeStreams :: "(streamId \<times> ref) list"
  rsm_objects :: "(ref \<times> ffStream) list"
  rsm_processes :: "(ref \<times> ffProcess) list"
  rsm_connectionAttempts :: "(streamId \<times> nat) list"
  rsm_reconnectTimers :: "(streamId \<times> timerId) list"
  rsm_conf :: rsm_config
  rsm_timers :: "(timerId \<times> rsm_timerAction) list"
  rsm_nextTimer :: timerId
  rsm_events :: "event list"

definition rsm_init :: "rsm_config \<Rightarrow> rsm" where
  "rsm_init cfg = \<lparr> rsm_activeStreams = [], rsm_objects = [], rsm_processes = [],
     rsm_connectionAttempts = [], rsm_reconnectTimers = [], rsm_conf = cfg,
     rsm_timers = [], rsm_nextTimer = 0, rsm_events = [] \<rparr>"

definition rsm_new :: rsm where
  "rsm_new = rsm_init rsm_default_config"

definition rsm_emit :: "event \<Rightarrow> rsm \<Rightarrow> rsm" where
  "rsm_emit e s = s\<lparr> rsm_events := rsm_events s @ [e] \<rparr>"

definition rsm_setTimeout :: "rsm_timerAction \<Rightarrow> rsm \<Rightarrow> timerId \<times> rsm" where
  "rsm_setTimeout act s =
     (rsm_nextTimer s, s\<lparr> rsm_timers := AList.update (rsm_nextTimer s) act (rsm_timers s),
                           rsm_nextTimer := rsm_nextTimer s + 1 \<rparr>)"

definition rsm_clearTimeout :: "timerId \<Rightarrow> rsm \<Rightarrow> rsm" where
  "rsm_clearTimeout t s = s\<lparr> rsm_timers := AList.delete t (rsm_timers s) \<rparr>"

text \<open>\<^verbatim>\<open>this.activeStreams.get(streamId)\<close>: the reference and the object behind it.\<close>

definition rsm_streamData :: "rsm \<Rightarrow> streamId \<Rightarrow> (ref \<times> ffStream) option" where
  "rsm_streamData s streamId =
     (case map_of (rsm_activeStreams s) streamId of
        None \<Rightarrow> None
      | Some r \<Rightarrow> (case map_of (rsm_objects s) r of None \<Rightarrow> None | Some sd \<Rightarrow> Some (r, sd)))"

definition rsm_cleanupStream :: "streamId \<Rightarrow> rsm \<Rightarrow> rsm" where
  "rsm_cleanupStream streamId s =
     (let s1 = (case rsm_streamData s streamId of
                  None \<Rightarrow> s
                | Some (r, sd) \<Rightarrow>
                    (case ff_connectionTimer sd of
                       None \<Rightarrow> s
                     | Some t \<Rightarrow> rsm_clearTimeout t s));
          s2 = (case map_of (rsm_reconnectTimers s1) streamId of
                  None \<Rightarrow> s1
                | Some t \<Rightarrow>
                    (rsm_clearTimeout t s1)\<lparr> rsm_reconnectTimers :=
                       AList.delete streamId (rsm_reconnectTimers s1) \<rparr>)
      in s2\<lparr> rsm_activeStreams := AList.delete streamId (rsm_activeStreams s2) \<rparr>)"

definition rsm_kill :: "ref \<Rightarrow> signal \<Rightarrow> rsm \<Rightarrow> rsm" where
  "rsm_kill p sig s =
     (case map_of (rsm_processes s) p of
        None \<Rightarrow> s
      | Some pr \<Rightarrow> s\<lparr> rsm_processes :=
          AList.update p (pr\<lparr> pr_killed := True, pr_signals := pr_signals pr @ [sig] \<rparr>)
            (rsm_processes s) \<rparr>)"

definition rsm_killed :: "rsm \<Rightarrow> ref \<Rightarrow> bool" where
  "rsm_killed s p = (case map_of (rsm_processes s) p of None \<Rightarrow> False | Some pr \<Rightarrow> pr_killed pr)"

definition rsm_stopStream :: "streamId \<Rightarrow> rsm \<Rightarrow> rsm" where
  "rsm_stopStream streamId s =
     (case rsm_streamData s streamId of
        None \<Rightarrow> s
      | Some (r, sd) \<Rightarrow>
          (let s1 = (if \<not> rsm_killed s (ff_process sd)
                     then snd (rsm_setTimeout (KillTimer r) (rsm_kill (ff_process sd) SIGTERM s))
                     else s)
           in rsm_cleanupStream streamId s1))"

definition rsm_handleStreamError :: "streamId \<Rightarrow> error \<Rightarrow> rsm \<Rightarrow> rsm" where
  "rsm_handleStreamError streamId err s =
     (case rsm_streamData s streamId of
        None \<Rightarrow> s
      | Some (r, sd) \<Rightarrow>
          (let attempts = attemptsOf (rsm_connectionAttempts s) streamId + 1;
               s1 = s\<lparr> rsm_connectionAttempts :=
                         AList.update streamId attempts (rsm_connectionAttempts s) \<rparr>;
               s2 = rsm_emit (StreamError streamId err attempts) s1;
               s3 = rsm_cleanupStream streamId s2
           in if attempts < rsm_maxRetries (rsm_conf s3)
              then (case rsm_setTimeout (RetryTimer streamId r) s3 of
                      (reconnectTimer, s4) \<Rightarrow>
                        s4\<lparr> rsm_reconnectTimers :=
                              AList.update streamId reconnectTimer (rsm_reconnectTimers s4) \<rparr>)
              else rsm_emit (StreamFailed streamId) s3))"

definition rsm_startStream :: "camera \<Rightarrow> string \<Rightarrow> rsm \<Rightarrow> (error + streamId) \<times> rsm" where
  "rsm_startStream cam quality s =
     (let streamId = streamKey (cam_id cam) quality;
          s1 = (if map_of (rsm_activeStreams s) streamId \<noteq> None
                then rsm_stopStream streamId s else s);
          rtspUrl = (if quality = ''high'' then rtsp_hd_link cam else rtsp_link cam)
      in if \<not> truthy rtspUrl
         then (Inl RtspUrlMissing, rsm_emit (StreamStartError RtspUrlMissing) s1)
         else
           (let p = length (rsm_processes s1);
                r = length (rsm_objects s1);
                s2 = s1\<lparr> rsm_processes := AList.update p
                           \<lparr> pr_rtspUrl = the rtspUrl, pr_streamId = streamId,
                             pr_quality = quality, pr_camera = cam, pr_streamData = r,
                             pr_killed = False, pr_signals = [] \<rparr> (rsm_processes s1) \<rparr>;
                sd = \<lparr> ff_process = p, ff_camera = cam, ff_quality = quality,
                       ff_status = Connecting, ff_connectionTimer = None \<rparr>;
                s3 = s2\<lparr> rsm_objects := AList.update r sd (rsm_objects s2),
                         rsm_activeStreams := AList.update streamId r (rsm_activeStreams s2) \<rparr>
            in case rsm_setTimeout (ConnectionTimer streamId cam) s3 of
                 (connectionTimer, s4) \<Rightarrow>
                   (Inr streamId,
                    (case rsm_streamData s4 streamId of
                       None \<Rightarrow> s4
                     | Some (r', sd') \<Rightarrow>
                         s4\<lparr> rsm_objects := AList.update r'
                               (sd'\<lparr> ff_connectionTimer := Some connectionTimer \<rparr>)
                               (rsm_objects s4) \<rparr>))))"

text \<open>The handlers of \<^verbatim>\<open>setupFFmpegHandlers\<close> for process \<open>p\<close>. Of a chunk of
  diagnostic output only two things matter: whether it shows progress (\<^verbatim>\<open>fps=\<close> or
  \<^verbatim>\<open>bitrate=\<close>) and whether it shows a connection failure.\<close>

definition rsm_markConnected :: "ref \<Rightarrow> streamId \<Rightarrow> ffStream \<Rightarrow> rsm \<Rightarrow> rsm" where
  "rsm_markConnected r streamId sd s =
     (let s1 = (case ff_connectionTimer sd of
                  None \<Rightarrow> s | Some t \<Rightarrow> rsm_clearTimeout t s);
          s2 = s1\<lparr> rsm_objects := AList.update r
                     (sd\<lparr> ff_status := Streaming, ff_connectionTimer := None \<rparr>) (rsm_objects s1) \<rparr>;
          s3 = rsm_emit (StreamConnected streamId) s2
      in s3\<lparr> rsm_connectionAttempts := AList.delete streamId (rsm_connectionAttempts s3) \<rparr>)"

definition rsm_onStderr :: "ref \<Rightarrow> bool \<Rightarrow> bool \<Rightarrow> rsm \<Rightarrow> rsm" where
  "rsm_onStderr p progress failure s =
     (case map_of (rsm_processes s) p of
        None \<Rightarrow> s
      | Some pr \<Rightarrow>
          (let s1 = (case map_of (rsm_objects s) (pr_streamData pr) of
                       None \<Rightarrow> s
                     | Some sd \<Rightarrow>
                         if progress \<and> ff_status sd = Connecting
                         then rsm_markConnected (pr_streamData pr) (pr_streamId pr) sd s
                         else s)
           in if failure then rsm_handleStreamError (pr_streamId pr) ConnectionFailed s1 else s1))"

definition rsm_onClose :: "ref \<Rightarrow> int option \<Rightarrow> bool \<Rightarrow> rsm \<Rightarrow> rsm" where
  "rsm_onClose p code signalled s =
     (case map_of (rsm_processes s) p of
        None \<Rightarrow> s
      | Some pr \<Rightarrow>
          (case map_of (rsm_objects s) (pr_streamData pr) of
             None \<Rightarrow> s
           | Some sd \<Rightarrow>
               if ff_status sd = Streaming \<and> code \<noteq> Some 0 \<and> \<not> signalled
               then rsm_handleStreamError (pr_streamId pr)
                      (FFmpegExited (case code of None \<Rightarrow> 0 | Some c \<Rightarrow> c)) s
               else rsm_cleanupStream (pr_streamId pr) s))"

definition rsm_onError :: "ref \<Rightarrow> rsm \<Rightarrow> rsm" where
  "rsm_onError p s =
     (case map_of (rsm_processes s) p of
        None \<Rightarrow> s
      | Some pr \<Rightarrow> rsm_handleStreamError (pr_streamId pr) ProcessError s)"

definition rsm_fireTimer :: "timerId \<Rightarrow> rsm \<Rightarrow> rsm" where
  "rsm_fireTimer t s =
     (case map_of (rsm_timers s) t of
        None \<Rightarrow> s
      | Some act \<Rightarrow>
          (let s1 = s\<lparr> rsm_timers := AList.delete t (rsm_timers s) \<rparr>
           in case act of
                ConnectionTimer streamId cam \<Rightarrow>
                  (case rsm_streamData s1 streamId of
                     None \<Rightarrow> s1
                   | Some (r, sd) \<Rightarrow>
                       if ff_status sd = Connecting
                       then rsm_handleStreamError streamId ConnectionTimeout s1 else s1)
              | RetryTimer streamId r \<Rightarrow>
                  (case map_of (rsm_objects s1) r of
                     None \<Rightarrow> s1
                   | Some sd \<Rightarrow>
                       (let s2 = snd (rsm_startStream (ff_camera sd) (ff_quality sd) s1)
                        in s2\<lparr> rsm_reconnectTimers :=
                                AList.delete streamId (rsm_reconnectTimers s2) \<rparr>))
              | KillTimer r \<Rightarrow>
                  (case map_of (rsm_objects s1) r of
                     None \<Rightarrow> s1
                   | Some sd \<Rightarrow>
                       if \<not> rsm_killed s1 (ff_process sd)
                       then rsm_kill (ff_process sd) SIGKILL s1 else s1)))"

definition rsm_stopAllStreams :: "rsm \<Rightarrow> rsm" where
  "rsm_stopAllStreams s =
     (let s1 = fold rsm_stopStream (map fst (rsm_activeStreams s)) s;
          s2 = fold rsm_clearTimeout (map snd (rsm_reconnectTimers s1)) s1
      in s2\<lparr> rsm_reconnectTimers := [], rsm_connectionAttempts := [] \<rparr>)"


subsection \<open>RTSPStreamManager: the parts of a call and the reachable states\<close>

text \<open>\<^verbatim>\<open>stopStream\<close> and \<^verbatim>\<open>handleStreamError\<close> contain no \<^verbatim>\<open>await\<close>: their
  bodies run from entry to return. Three calls are suspended. \<^verbatim>\<open>startStream\<close>
  awaits \<^verbatim>\<open>stopStream\<close> for a key that has a record (line 737) and is resumed with
  \<open>rsm_startStream_rest\<close> (lines 741 to 786). The reconnection callback awaits
  \<^verbatim>\<open>startStream\<close> (line 929): \<open>rsm_retry_begin\<close> is the firing of the timer up to the
  first \<^verbatim>\<open>await\<close> reached, and \<open>rsm_retry_done\<close> the
  \<^verbatim>\<open>reconnectTimers.delete\<close> of line 933. \<^verbatim>\<open>stopAllStreams\<close> awaits the
  \<^verbatim>\<open>stopStream\<close> calls (line 1063) and is resumed with \<open>rsm_stopAllStreams_clear\<close>
  (lines 1066 to 1068).\<close>

definition rsm_startStream_rest :: "camera \<Rightarrow> string \<Rightarrow> rsm \<Rightarrow> (error + streamId) \<times> rsm" where
  "rsm_startStream_rest cam quality s1 =
     (let streamId = streamKey (cam_id cam) quality;
          rtspUrl = (if quality = ''high'' then rtsp_hd_link cam else rtsp_link cam)
      in if \<not> truthy rtspUrl
         then (Inl RtspUrlMissing, rsm_emit (StreamStartError RtspUrlMissing) s1)
         else
           (let p = length (rsm_processes s1);
                r = length (rsm_objects s1);
                s2 = s1\<lparr> rsm_processes := AList.update p
                           \<lparr> pr_rtspUrl = the rtspUrl, pr_streamId = streamId,
                             pr_quality = quality, pr_camera = cam, pr_streamData = r,
                             pr_killed = False, pr_signals = [] \<rparr> (rsm_processes s1) \<rparr>;
                sd = \<lparr> ff_process = p, ff_camera = cam, ff_quality = quality,
                       ff_status = Connecting, ff_connectionTimer = None \<rparr>;
                s3 = s2\<lparr> rsm_objects := AList.update r sd (rsm_objects s2),
                         rsm_activeStreams := AList.update streamId r (rsm_activeStreams s2) \<rparr>
            in case rsm_setTimeout (ConnectionTimer streamId cam) s3 of
                 (connectionTimer, s4) \<Rightarrow>
                   (Inr streamId,
                    (case rsm_streamData s4 streamId of
                       None \<Rightarrow> s4
                     | Some (r', sd') \<Rightarrow>
                         s4\<lparr> rsm_objects := AList.update r'
                               (sd'\<lparr> ff_connectionTimer := Some connectionTimer \<rparr>)
                               (rsm_objects s4) \<rparr>))))"

definition rsm_startStream_begin :: "camera \<Rightarrow> string \<Rightarrow> rsm \<Rightarrow> rsm" where
  "rsm_startStream_begin cam quality s =
     (let streamId = streamKey (cam_id cam) quality
      in if map_of (rsm_activeStreams s) streamId \<noteq> None
         then rsm_stopStream streamId s
         else snd (rsm_startStream_rest cam quality s))"

definition rsm_retry_begin :: "timerId \<Rightarrow> rsm \<Rightarrow> rsm" where
  "rsm_retry_begin t s =
     (case map_of (rsm_timers s) t of
        Some (RetryTimer streamId r) \<Rightarrow>
          (let s1 = s\<lparr> rsm_timers := AList.delete t (rsm_timers s) \<rparr>
           in case map_of (rsm_objects s1) r of
                None \<Rightarrow> s1
              | Some sd \<Rightarrow> rsm_startStream_begin (ff_camera sd) (ff_quality sd) s1)
      | _ \<Rightarrow> s)"

definition rsm_retry_done :: "streamId \<Rightarrow> rsm \<Rightarrow> rsm" where
  "rsm_retry_done streamId s =
     s\<lparr> rsm_reconnectTimers := AList.delete streamId (rsm_reconnectTimers s) \<rparr>"

definition rsm_stopAllStreams_clear :: "rsm \<Rightarrow> rsm" where
  "rsm_stopAllStreams_clear s1 =
     (let s2 = fold rsm_clearTimeout (map snd (rsm_reconnectTimers s1)) s1
      in s2\<lparr> rsm_reconnectTimers := [], rsm_connectionAttempts := [] \<rparr>)"

text \<open>The steps of the manager: the calls of its user and the callbacks of timers and
  processes, each as a whole, and the parts that resume a suspended call. As for the
  other manager a part is allowed in every state.\<close>

datatype rsm_action =
    RsmStartStream camera string
  | RsmStopStream streamId
  | RsmStopAllStreams
  | RsmFireTimer timerId
  | RsmStderr ref bool bool
  | RsmClose ref "int option" bool
  | RsmError ref
  | RsmStartStream_rest camera string
  | RsmRetry_begin timerId
  | RsmRetry_done streamId
  | RsmStopAllStreams_clear

fun rsm_exec :: "rsm_action \<Rightarrow> rsm \<Rightarrow> rsm" where
  "rsm_exec (RsmStartStream cam quality) s = snd (rsm_startStream cam quality s)"
| "rsm_exec (RsmStopStream streamId) s = rsm_stopStream streamId s"
| "rsm_exec RsmStopAllStreams s = rsm_stopAllStreams s"
| "rsm_exec (RsmFireTimer t) s = rsm_fireTimer t s"
| "rsm_exec (RsmStderr p progress failure) s = rsm_onStderr p progress failure s"
| "rsm_exec (RsmClose p code signalled) s = rsm_onClose p code signalled s"
| "rsm_exec (RsmError p) s = rsm_onError p s"
| "rsm_exec (RsmStartStream_rest cam quality) s = snd (rsm_startStream_rest cam quality s)"
| "rsm_exec (RsmRetry_begin t) s = rsm_retry_begin t s"
| "rsm_exec (RsmRetry_done streamId) s = rsm_retry_done streamId s"
| "rsm_exec RsmStopAllStreams_clear s = rsm_stopAllStreams_clear s"

inductive rsm_reachable :: "rsm \<Rightarrow> bool" where
  rsm_reachable_init: "rsm_reachable (rsm_init cfg)"
| rsm_reachable_step: "rsm_reachable s \<Longrightarrow> rsm_reachable (rsm_exec a s)"

text \<open>A step that starts the stream \<open>streamId\<close> at its user's request or resumes a
  \<^verbatim>\<open>startStream\<close> call for it.\<close>

fun rsm_starts :: "streamId \<Rightarrow> rsm_action \<Rightarrow> bool" where
  "rsm_starts streamId (RsmStartStream cam quality) = (streamKey (cam_id cam) quality = streamId)"
| "rsm_starts streamId (RsmStartStream_rest cam quality) =
     (streamKey (cam_id cam) quality = streamId)"
| "rsm_starts streamId a = False"
section \<open>Example cameras and managers\<close>

text \<open>Three cameras, and a manager whose ceiling is two with both places taken.\<close>

definition camA :: camera where
  "camA = \<lparr> cam_id = ''1'', camera_name = ''Entrance'', rtsp_link = Some ''rtsp://10.0.0.1/live'',
            rtsp_link_high = None, rtsp_hd_link = None \<rparr>"

definition camB :: camera where
  "camB = \<lparr> cam_id = ''2'', camera_name = ''Yard'', rtsp_link = Some ''rtsp://10.0.0.2/live'',
            rtsp_link_high = None, rtsp_hd_link = None \<rparr>"

definition camC :: camera where
  "camC = \<lparr> cam_id = ''3'', camera_name = ''Garage'', rtsp_link = Some ''rtsp://10.0.0.3/live'',
            rtsp_link_high = None, rtsp_hd_link = None \<rparr>"

definition two_streams :: manager where
  "two_streams =
     exec (StartStream camB ''low'' False MJPEG True)
       (exec (StartStream camA ''low'' False MJPEG True)
          (manager_init (default_config\<lparr> maxConnections := 2 \<rparr>)))"

text \<open>The manager after \<open>n\<close> explicit starts of the first camera whose proxy server
  cannot listen, and an FFmpeg-based manager with one stream.\<close>

definition failed_starts :: "nat \<Rightarrow> manager" where
  "failed_starts n = (exec (StartStream camA ''low'' False MJPEG False) ^^ n) new_manager"

definition rsm_one_stream :: rsm where
  "rsm_one_stream = snd (rsm_startStream camA ''low'' rsm_new)"

text \<open>The FFmpeg-based manager after the process of its one stream reported an error:
  the stream waits for its retry.\<close>

definition rsm_retrying :: rsm where
  "rsm_retrying = rsm_onError 0 rsm_one_stream"

text \<open>The second camera's stream object, and the manager with both places taken after
  audio was switched on for the first camera.\<close>
definition streamB :: streamData where
  "streamB = \<lparr> sd_id = ''2_low'', sd_camera = camB, sd_quality = ''low'',
       sd_streamUrl = Some ''rtsp://10.0.0.2/live'', sd_streamInfo = MJPEG,
       sd_proxyServer = 1, sd_proxyPort = 8081, sd_status = Connecting,
       sd_includeAudio = False, bytesTransferred = 0, clientsConnected = 0 \<rparr>"

definition audio_on_A :: manager where
  "audio_on_A = exec (ToggleAudio ''1'' ''low'') two_streams"

text \<open>Two calls of \<^verbatim>\<open>toggleAudio\<close> that overlap, while the first camera holds the
  audio: the call for the second camera runs up to the \<^verbatim>\<open>await\<close> of line 540, the
  call for the first camera is entered and runs up to the \<^verbatim>\<open>await\<close> of line 523,
  then the first call is resumed (its stream object has reference 1), and each call emits
  its event.\<close>

definition toggle_B_suspended :: manager where
  "toggle_B_suspended = run (ToggleAudio_begin ''2'' ''low'') audio_on_A"

definition toggle_A_entered :: manager where
  "toggle_A_entered = run (ToggleAudio_begin ''1'' ''low'') toggle_B_suspended"

definition overlapping_toggles :: manager where
  "overlapping_toggles =
     run (ToggleAudio_started ''2_low'')
       (run (ToggleAudio_started ''1_low'')
          (run (StartAudioStream_acquire 1) toggle_A_entered))"




section \<open>Invariants of AutonomousRTSPManager\<close>

text \<open>Every record of \<^verbatim>\<open>activeStreams\<close> has a non-empty key and refers to a stream
  object that carries the key as its id, and references are below the next reference to be
  handed out.\<close>

definition records_ok :: "manager \<Rightarrow> bool" where
  "records_ok s \<longleftrightarrow>
     (\<forall>r \<in> fst ` set (objects s). r < length (objects s)) \<and>
     (\<forall>k r. map_of (activeStreams s) k = Some r \<longrightarrow>
        k \<noteq> [] \<and> (\<exists>sd. map_of (objects s) r = Some sd \<and> sd_id sd = k))"

text \<open>The audio table has an entry exactly for the current audio stream.\<close>

definition audio_ok :: "manager \<Rightarrow> bool" where
  "audio_ok s \<longleftrightarrow>
     (\<forall>k. hasAudio s k \<longleftrightarrow> currentAudioStream s = Some k) \<and>
     currentAudioStream s \<noteq> Some []"


text \<open>The keys of \<^verbatim>\<open>activeStreams\<close> are distinct, the references of the proxy servers
  are below the next reference to be handed out, and every stream object refers to a
  server that has been created.\<close>

definition servers_ok :: "manager \<Rightarrow> bool" where
  "servers_ok s \<longleftrightarrow>
     distinct (map fst (activeStreams s)) \<and>
     (\<forall>p \<in> fst ` set (servers s). p < length (servers s)) \<and>
     (\<forall>r sd. map_of (objects s) r = Some sd \<longrightarrow> sd_proxyServer sd < length (servers s))"

section \<open>Properties of AutonomousRTSPManager\<close>

subsection \<open>Association lists\<close>

lemma delete_absent: "map_of al k = None \<Longrightarrow> AList.delete k al = al"
  by (simp add: map_of_eq_None_iff)

lemma delete_absent_pair: "\<forall>a b. map_of al k \<noteq> Some (a, b) \<Longrightarrow> AList.delete k al = al"
  by (rule delete_absent) (cases "map_of al k", auto)

lemma length_delete_present: "map_of al k \<noteq> None \<Longrightarrow> length (AList.delete k al) < length al"
  by (induction al) (auto simp: less_Suc_eq_le length_delete_le split: if_splits)

lemma map_of_delete_same: "map_of (AList.delete k al) k = None"
  by (simp add: delete_conv')

subsection \<open>What each operation changes\<close>

lemmas am_eval = startStream_def startStream_catch_def handleStreamError_def stopStream_def
  createStreamProxy_def setTimeout_def clearTimeout_def emit_def manager_init_def new_manager_def
  default_config_def streamKey_def fireTimer_def reconnectCallback_def evalIdentifier_def
  handleStreamError_scope_def connectedCallback_def selectStreamUrl_def truthy_def Let_def
  attemptsOf_def startAudioStream_def stopAudioStream_def closeServer_def toggleAudio_def
  toggleAudio_with_def proxyConnection_def socketClose_def bumpClients_def handleProxyRequest_def
  stopAllStreams_def hasAudio_def isCurrentAudio_def

lemma emit_fields [simp]:
  "activeStreams (emit e s) = activeStreams s" "objects (emit e s) = objects s"
  "servers (emit e s) = servers s" "connectionAttempts (emit e s) = connectionAttempts s"
  "reconnectTimers (emit e s) = reconnectTimers s" "audioStreams (emit e s) = audioStreams s"
  "currentAudioStream (emit e s) = currentAudioStream s" "config (emit e s) = config s"
  "nextProxyPort (emit e s) = nextProxyPort s" "timers (emit e s) = timers s"
  "nextTimer (emit e s) = nextTimer s" "sockets (emit e s) = sockets s"
  "nextSocket (emit e s) = nextSocket s" "events (emit e s) = events s @ [e]"
  by (simp_all add: emit_def)

lemma stopAudioStream_fields [simp]:
  "activeStreams (stopAudioStream k s) = activeStreams s" "objects (stopAudioStream k s) = objects s"
  "servers (stopAudioStream k s) = servers s"
  "connectionAttempts (stopAudioStream k s) = connectionAttempts s"
  "reconnectTimers (stopAudioStream k s) = reconnectTimers s"
  "config (stopAudioStream k s) = config s"
  "nextProxyPort (stopAudioStream k s) = nextProxyPort s" "timers (stopAudioStream k s) = timers s"
  "nextTimer (stopAudioStream k s) = nextTimer s" "sockets (stopAudioStream k s) = sockets s"
  "nextSocket (stopAudioStream k s) = nextSocket s" "events (stopAudioStream k s) = events s"
  "audioStreams (stopAudioStream k s) = AList.delete k (audioStreams s)"
  "currentAudioStream (stopAudioStream k s) =
     (if currentAudioStream s = Some k then None else currentAudioStream s)"
  by (simp_all add: stopAudioStream_def Let_def)

lemma closeServer_fields [simp]:
  "activeStreams (closeServer p s) = activeStreams s" "objects (closeServer p s) = objects s"
  "connectionAttempts (closeServer p s) = connectionAttempts s"
  "reconnectTimers (closeServer p s) = reconnectTimers s"
  "audioStreams (closeServer p s) = audioStreams s"
  "currentAudioStream (closeServer p s) = currentAudioStream s" "config (closeServer p s) = config s"
  "nextProxyPort (closeServer p s) = nextProxyPort s" "timers (closeServer p s) = timers s"
  "nextTimer (closeServer p s) = nextTimer s" "sockets (closeServer p s) = sockets s"
  "nextSocket (closeServer p s) = nextSocket s" "events (closeServer p s) = events s"
  by (simp_all add: closeServer_def split: option.splits)

lemma stopStream_absent: "map_of (activeStreams s) k = None \<Longrightarrow> stopStream k s = s"
  by (simp add: stopStream_def)

lemma stopStream_fields [simp]:
  "activeStreams (stopStream k s) = AList.delete k (activeStreams s)"
  "objects (stopStream k s) = objects s"
  "config (stopStream k s) = config s"
  "nextProxyPort (stopStream k s) = nextProxyPort s"
  "nextTimer (stopStream k s) = nextTimer s" "sockets (stopStream k s) = sockets s"
  "nextSocket (stopStream k s) = nextSocket s" "events (stopStream k s) = events s"
  by (simp_all add: stopStream_def Let_def clearTimeout_def delete_absent split: option.splits)

lemma stopStream_present_fields:
  assumes "map_of (activeStreams s) k \<noteq> None"
  shows "connectionAttempts (stopStream k s) = AList.delete k (connectionAttempts s)"
    and "reconnectTimers (stopStream k s) = AList.delete k (reconnectTimers s)"
    and "audioStreams (stopStream k s) = AList.delete k (audioStreams s)"
    and "currentAudioStream (stopStream k s) =
          (if map_of (audioStreams s) k \<noteq> None \<and> currentAudioStream s = Some k
           then None else currentAudioStream s)"
    and "timers (stopStream k s) =
          (case map_of (reconnectTimers s) k of None \<Rightarrow> timers s
           | Some t \<Rightarrow> AList.delete t (timers s))"
  using assms
  by (auto simp add: stopStream_def Let_def clearTimeout_def delete_absent delete_absent_pair
        split: option.splits)

lemma handleStreamError_absent_fields:
  assumes "map_of (activeStreams s) k = None"
  shows "activeStreams (handleStreamError k cam e s) = activeStreams s"
    and "objects (handleStreamError k cam e s) = objects s"
    and "servers (handleStreamError k cam e s) = servers s"
    and "audioStreams (handleStreamError k cam e s) = audioStreams s"
    and "currentAudioStream (handleStreamError k cam e s) = currentAudioStream s"
    and "nextProxyPort (handleStreamError k cam e s) = nextProxyPort s"
    and "config (handleStreamError k cam e s) = config s"
    and "connectionAttempts (handleStreamError k cam e s) =
           AList.update k (attemptsOf (connectionAttempts s) k + 1) (connectionAttempts s)"
  using assms
  by (simp_all add: handleStreamError_def Let_def setTimeout_def stopStream_absent
        split: prod.splits)


lemma two_streams_fields:
  "activeStreams two_streams = [(''1_low'', 0), (''2_low'', 1)]"
  "maxConnections (config two_streams) = 2"
  "maxRetries (config two_streams) = 5"
  "connectionAttempts two_streams = [(''1_low'', 0), (''2_low'', 0)]"
  "reconnectTimers two_streams = []"
  "nextTimer two_streams = 2"
  "nextProxyPort two_streams = 8082"
  by (simp_all add: two_streams_def am_eval camA_def camB_def)

subsection \<open>The connection ceiling and a new key\<close>


lemma startStream_at_ceiling_eq:
  assumes "map_of (activeStreams s) (streamKey (cam_id cam) q) = None"
      and "maxConnections (config s) \<le> length (activeStreams s)"
  shows "startStream cam q a info listens s =
           (Inl (CapacityExceeded (maxConnections (config s))),
            handleStreamError (streamKey (cam_id cam) q) cam
              (CapacityExceeded (maxConnections (config s))) s)"
  using assms by (simp add: startStream_def Let_def startStream_catch_def)

lemma handleStreamError_absent_timers:
  assumes "map_of (activeStreams s) k = None"
  shows "attemptsOf (connectionAttempts s) k + 1 < maxRetries (config s) \<Longrightarrow>
           reconnectTimers (handleStreamError k cam e s) =
             AList.update k (nextTimer s) (reconnectTimers s)
         \<and> timers (handleStreamError k cam e s) =
             AList.update (nextTimer s)
               (ReconnectTimer k cam (attemptsOf (connectionAttempts s) k + 1)) (timers s)
         \<and> events (handleStreamError k cam e s) =
             events s @ [StreamError k e (attemptsOf (connectionAttempts s) k + 1)]"
    and "maxRetries (config s) \<le> attemptsOf (connectionAttempts s) k + 1 \<Longrightarrow>
           reconnectTimers (handleStreamError k cam e s) = reconnectTimers s
         \<and> timers (handleStreamError k cam e s) = timers s
         \<and> events (handleStreamError k cam e s) =
             events s @ [StreamError k e (attemptsOf (connectionAttempts s) k + 1), StreamFailed k]"
  using assms
  by (simp_all add: handleStreamError_def Let_def setTimeout_def stopStream_absent emit_def
        split: prod.splits)

text \<open>
  C1 (amended). When the key has no record and the number of records has reached
  \<^verbatim>\<open>maxConnections\<close>, \<^verbatim>\<open>startStream\<close> throws the capacity error and creates no
  stream record: the records, the stream objects, the proxy servers and the port
  allocator are unchanged. Its \<^verbatim>\<open>catch\<close> block however hands the error to
  \<^verbatim>\<open>handleStreamError\<close>, which sets the key's attempt counter to its previous value
  plus one and, while that value is below \<^verbatim>\<open>maxRetries\<close>, schedules a reconnection
  timer and registers it under the key; from \<^verbatim>\<open>maxRetries\<close> on it emits
  \<^verbatim>\<open>streamFailed\<close> instead and schedules nothing.
\<close>

theorem startStream_at_ceiling:
  assumes "map_of (activeStreams s) (streamKey (cam_id cam) q) = None"
      and "maxConnections (config s) \<le> length (activeStreams s)"
  shows "fst (startStream cam q a info listens s) = Inl (CapacityExceeded (maxConnections (config s)))
       \<and> activeStreams (snd (startStream cam q a info listens s)) = activeStreams s
       \<and> objects (snd (startStream cam q a info listens s)) = objects s
       \<and> servers (snd (startStream cam q a info listens s)) = servers s
       \<and> nextProxyPort (snd (startStream cam q a info listens s)) = nextProxyPort s
       \<and> map_of (connectionAttempts (snd (startStream cam q a info listens s)))
            (streamKey (cam_id cam) q)
           = Some (attemptsOf (connectionAttempts s) (streamKey (cam_id cam) q) + 1)
       \<and> (if attemptsOf (connectionAttempts s) (streamKey (cam_id cam) q) + 1 < maxRetries (config s)
          then map_of (reconnectTimers (snd (startStream cam q a info listens s)))
                 (streamKey (cam_id cam) q) = Some (nextTimer s)
             \<and> map_of (timers (snd (startStream cam q a info listens s))) (nextTimer s)
                 = Some (ReconnectTimer (streamKey (cam_id cam) q) cam
                     (attemptsOf (connectionAttempts s) (streamKey (cam_id cam) q) + 1))
          else reconnectTimers (snd (startStream cam q a info listens s)) = reconnectTimers s
             \<and> timers (snd (startStream cam q a info listens s)) = timers s
             \<and> StreamFailed (streamKey (cam_id cam) q)
                 \<in> set (events (snd (startStream cam q a info listens s))))"
  using handleStreamError_absent_timers[OF assms(1), of cam "CapacityExceeded (maxConnections (config s))"]
  by (simp add: startStream_at_ceiling_eq[OF assms] handleStreamError_absent_fields[OF assms(1)]
        update_conv')

lemma two_streams_timers:
  "timers two_streams = [(0, ConnectedTimer 0 ''1_low'' camA), (1, ConnectedTimer 1 ''2_low'' camB)]"
  by (simp_all add: two_streams_def am_eval camA_def camB_def)

text \<open>C1 as stated fails: with both places taken, starting a third camera throws the
  capacity error, and afterwards the key has an attempt counter and a scheduled,
  registered reconnection timer.\<close>

theorem startStream_at_ceiling_creates_state:
  "length (activeStreams two_streams) = maxConnections (config two_streams)
   \<and> map_of (activeStreams two_streams) (streamKey (cam_id camC) ''low'') = None
   \<and> map_of (connectionAttempts two_streams) (streamKey (cam_id camC) ''low'') = None
   \<and> map_of (reconnectTimers two_streams) (streamKey (cam_id camC) ''low'') = None
   \<and> fst (startStream camC ''low'' False MJPEG True two_streams) = Inl (CapacityExceeded 2)
   \<and> map_of (connectionAttempts (snd (startStream camC ''low'' False MJPEG True two_streams)))
        (streamKey (cam_id camC) ''low'') = Some 1
   \<and> map_of (reconnectTimers (snd (startStream camC ''low'' False MJPEG True two_streams)))
        (streamKey (cam_id camC) ''low'') = Some 2
   \<and> map_of (timers (snd (startStream camC ''low'' False MJPEG True two_streams))) 2
        = Some (ReconnectTimer ''3_low'' camC 1)"
  by (simp add: two_streams_def am_eval camA_def camB_def camC_def)

theorem startStream_at_ceiling_witness:
  "map_of (activeStreams two_streams) (streamKey (cam_id camC) ''low'') = None
   \<and> maxConnections (config two_streams) \<le> length (activeStreams two_streams)
   \<and> attemptsOf (connectionAttempts two_streams) (streamKey (cam_id camC) ''low'') + 1
       < maxRetries (config two_streams)
   \<and> fst (startStream camC ''low'' False MJPEG True two_streams) = Inl (CapacityExceeded 2)
   \<and> activeStreams (snd (startStream camC ''low'' False MJPEG True two_streams))
       = activeStreams two_streams
   \<and> map_of (reconnectTimers (snd (startStream camC ''low'' False MJPEG True two_streams)))
        (streamKey (cam_id camC) ''low'') = Some (nextTimer two_streams)"
  using startStream_at_ceiling [of two_streams camC "''low''" False MJPEG True]
  by (simp add: two_streams_fields streamKey_def camC_def attemptsOf_def)

subsection \<open>The retry limit\<close>


lemma set_delete_subset: "set (AList.delete k al) \<subseteq> set al"
  by (auto simp: AList.delete_eq)





lemma handleStreamError_failed_eq:
  assumes "maxRetries (config s) \<le> attemptsOf (connectionAttempts s) k + 1"
  shows "handleStreamError k cam e s = stopStream k (emit (StreamFailed k) (emit (StreamError k e (attemptsOf (connectionAttempts s) k + 1))
               (s\<lparr> connectionAttempts := AList.update k (attemptsOf (connectionAttempts s) k + 1) (connectionAttempts s) \<rparr>)))"
proof -
  have "maxRetries (config (emit (StreamError k e (attemptsOf (connectionAttempts s) k + 1))
               (s\<lparr> connectionAttempts := AList.update k (attemptsOf (connectionAttempts s) k + 1) (connectionAttempts s) \<rparr>))) \<le> attemptsOf (connectionAttempts s) k + 1"
    using assms by simp
  then show ?thesis
    unfolding handleStreamError_def Let_def by (rule if_P)
qed



lemma handleStreamError_retry:
  assumes "attemptsOf (connectionAttempts s) k + 1 < maxRetries (config s)"
  shows "events (handleStreamError k cam e s) =
           events s @ [StreamError k e (attemptsOf (connectionAttempts s) k + 1)]"
    and "activeStreams (handleStreamError k cam e s) = activeStreams s"
    and "map_of (connectionAttempts (handleStreamError k cam e s)) k
           = Some (attemptsOf (connectionAttempts s) k + 1)"
    and "map_of (reconnectTimers (handleStreamError k cam e s)) k = Some (nextTimer s)"
    and "map_of (timers (handleStreamError k cam e s)) (nextTimer s)
           = Some (ReconnectTimer k cam (attemptsOf (connectionAttempts s) k + 1))"
  using assms
  by (simp_all add: handleStreamError_def Let_def setTimeout_def emit_def update_conv')


lemma rsm_emit_fields [simp]:
  "rsm_activeStreams (rsm_emit e s) = rsm_activeStreams s" "rsm_objects (rsm_emit e s) = rsm_objects s"
  "rsm_processes (rsm_emit e s) = rsm_processes s"
  "rsm_connectionAttempts (rsm_emit e s) = rsm_connectionAttempts s"
  "rsm_reconnectTimers (rsm_emit e s) = rsm_reconnectTimers s" "rsm_conf (rsm_emit e s) = rsm_conf s"
  "rsm_timers (rsm_emit e s) = rsm_timers s" "rsm_nextTimer (rsm_emit e s) = rsm_nextTimer s"
  "rsm_events (rsm_emit e s) = rsm_events s @ [e]"
  by (simp_all add: rsm_emit_def)

lemma rsm_clearTimeout_fields [simp]:
  "rsm_activeStreams (rsm_clearTimeout t s) = rsm_activeStreams s"
  "rsm_objects (rsm_clearTimeout t s) = rsm_objects s"
  "rsm_processes (rsm_clearTimeout t s) = rsm_processes s"
  "rsm_connectionAttempts (rsm_clearTimeout t s) = rsm_connectionAttempts s"
  "rsm_reconnectTimers (rsm_clearTimeout t s) = rsm_reconnectTimers s"
  "rsm_conf (rsm_clearTimeout t s) = rsm_conf s"
  "rsm_timers (rsm_clearTimeout t s) = AList.delete t (rsm_timers s)"
  "rsm_nextTimer (rsm_clearTimeout t s) = rsm_nextTimer s"
  "rsm_events (rsm_clearTimeout t s) = rsm_events s"
  by (simp_all add: rsm_clearTimeout_def)

lemma rsm_cleanupStream_fields [simp]:
  "rsm_activeStreams (rsm_cleanupStream k s) = AList.delete k (rsm_activeStreams s)"
  "rsm_objects (rsm_cleanupStream k s) = rsm_objects s"
  "rsm_processes (rsm_cleanupStream k s) = rsm_processes s"
  "rsm_connectionAttempts (rsm_cleanupStream k s) = rsm_connectionAttempts s"
  "rsm_reconnectTimers (rsm_cleanupStream k s) = AList.delete k (rsm_reconnectTimers s)"
  "rsm_conf (rsm_cleanupStream k s) = rsm_conf s"
  "rsm_nextTimer (rsm_cleanupStream k s) = rsm_nextTimer s"
  "rsm_events (rsm_cleanupStream k s) = rsm_events s"
  by (simp_all add: rsm_cleanupStream_def Let_def delete_absent split: option.splits prod.splits)


lemma rsm_cleanupStream_registered_cleared:
  "map_of (rsm_reconnectTimers s) k = Some t \<Longrightarrow> map_of (rsm_timers (rsm_cleanupStream k s)) t = None"
  by (auto simp add: rsm_cleanupStream_def Let_def delete_conv' split: option.splits prod.splits)





lemma createStreamProxy_fields:
  "activeStreams (snd (createStreamProxy l s)) = activeStreams s"
  "objects (snd (createStreamProxy l s)) = objects s"
  "connectionAttempts (snd (createStreamProxy l s)) = connectionAttempts s"
  "reconnectTimers (snd (createStreamProxy l s)) = reconnectTimers s"
  "audioStreams (snd (createStreamProxy l s)) = audioStreams s"
  "currentAudioStream (snd (createStreamProxy l s)) = currentAudioStream s"
  "config (snd (createStreamProxy l s)) = config s"
  "nextProxyPort (snd (createStreamProxy l s)) = nextProxyPort s + 1"
  "timers (snd (createStreamProxy l s)) = timers s"
  "nextTimer (snd (createStreamProxy l s)) = nextTimer s"
  "sockets (snd (createStreamProxy l s)) = sockets s"
  "nextSocket (snd (createStreamProxy l s)) = nextSocket s"
  "events (snd (createStreamProxy l s)) = events s"
  "fst (createStreamProxy l s) = (if l then Inr (length (servers s)) else Inl ProxyServerError)"
  by (simp_all add: createStreamProxy_def Let_def)








subsection \<open>Retry timers\<close>

lemma camA_fields [simp]:
  "cam_id camA = ''1''" "rtsp_link camA = Some ''rtsp://10.0.0.1/live''"
  "rtsp_link_high camA = None" "rtsp_hd_link camA = None"
  by (simp_all add: camA_def)

lemma reconnectCallback_throws:
  "reconnectCallback k cam n s = (Inl (ReferenceError ''streamData''), s)"
  by (simp add: reconnectCallback_def evalIdentifier_def handleStreamError_scope_def)

lemma fireTimer_reconnect:
  "map_of (timers s) t = Some (ReconnectTimer k cam n) \<Longrightarrow>
     fireTimer t s = (Inl (ReferenceError ''streamData''), s\<lparr> timers := AList.delete t (timers s) \<rparr>)"
  by (simp add: fireTimer_def Let_def reconnectCallback_throws)

lemma failed_starts_1:
  "failed_starts 1 =
     \<lparr> activeStreams = [], objects = [],
       servers = [(0, \<lparr> srv_port = 8080, srv_listening = False \<rparr>)],
       connectionAttempts = [(''1_low'', 1)], reconnectTimers = [(''1_low'', 0)],
       audioStreams = [], currentAudioStream = None, config = default_config,
       nextProxyPort = 8081, timers = [(0, ReconnectTimer ''1_low'' camA 1)],
       nextTimer = 1, sockets = [], nextSocket = 0,
       events = [StreamError ''1_low'' ProxyServerError 1] \<rparr>"
  by (simp add: failed_starts_def startStream_def startStream_catch_def handleStreamError_def
        stopStream_def createStreamProxy_def setTimeout_def emit_def manager_init_def
        new_manager_def streamKey_def attemptsOf_def Let_def default_config_def)

text \<open>
  C5 fails in \<^verbatim>\<open>AutonomousRTSPManager\<close>. After one failed start the stream waits for
  its retry with one attempt out of five. When the reconnection timer fires, the callback
  throws a \<^verbatim>\<open>ReferenceError\<close> for the unbound identifier \<^verbatim>\<open>streamData\<close>:
  \<^verbatim>\<open>startStream\<close> is not called, no proxy server is created, the counter stays at
  one; only the timer is gone.
\<close>

theorem reconnect_timer_throws_ReferenceError:
  "map_of (timers (failed_starts 1)) 0 = Some (ReconnectTimer ''1_low'' camA 1)
   \<and> attemptsOf (connectionAttempts (failed_starts 1)) ''1_low'' = 1
   \<and> maxRetries (config (failed_starts 1)) = 5
   \<and> fst (fireTimer 0 (failed_starts 1)) = Inl (ReferenceError ''streamData'')
   \<and> snd (fireTimer 0 (failed_starts 1)) = (failed_starts 1)\<lparr> timers := [] \<rparr>"
  unfolding failed_starts_1
  by (simp add: fireTimer_def reconnectCallback_throws attemptsOf_def default_config_def)

lemma rsm_one_stream_value:
  "rsm_one_stream =
     \<lparr> rsm_activeStreams = [(''1_low'', 0)],
       rsm_objects = [(0, \<lparr> ff_process = 0, ff_camera = camA, ff_quality = ''low'',
                            ff_status = Connecting, ff_connectionTimer = Some 0 \<rparr>)],
       rsm_processes = [(0, \<lparr> pr_rtspUrl = ''rtsp://10.0.0.1/live'', pr_streamId = ''1_low'',
                              pr_quality = ''low'', pr_camera = camA, pr_streamData = 0,
                              pr_killed = False, pr_signals = [] \<rparr>)],
       rsm_connectionAttempts = [], rsm_reconnectTimers = [], rsm_conf = rsm_default_config,
       rsm_timers = [(0, ConnectionTimer ''1_low'' camA)], rsm_nextTimer = 1,
       rsm_events = [] \<rparr>"
  by (simp add: rsm_one_stream_def rsm_startStream_def rsm_streamData_def rsm_setTimeout_def
        rsm_init_def rsm_new_def streamKey_def truthy_def Let_def)

lemma rsm_retrying_value:
  "rsm_retrying =
     \<lparr> rsm_activeStreams = [],
       rsm_objects = [(0, \<lparr> ff_process = 0, ff_camera = camA, ff_quality = ''low'',
                            ff_status = Connecting, ff_connectionTimer = Some 0 \<rparr>)],
       rsm_processes = [(0, \<lparr> pr_rtspUrl = ''rtsp://10.0.0.1/live'', pr_streamId = ''1_low'',
                              pr_quality = ''low'', pr_camera = camA, pr_streamData = 0,
                              pr_killed = False, pr_signals = [] \<rparr>)],
       rsm_connectionAttempts = [(''1_low'', 1)], rsm_reconnectTimers = [(''1_low'', 1)],
       rsm_conf = rsm_default_config,
       rsm_timers = [(1, RetryTimer ''1_low'' 0)], rsm_nextTimer = 2,
       rsm_events = [StreamError ''1_low'' ProcessError 1] \<rparr>"
  unfolding rsm_retrying_def rsm_one_stream_value
  by (simp add: rsm_onError_def rsm_handleStreamError_def rsm_cleanupStream_def
        rsm_streamData_def rsm_setTimeout_def rsm_clearTimeout_def rsm_emit_def attemptsOf_def
        rsm_default_config_def Let_def)

text \<open>
  C4 fails for a stream that waits for its retry. In \<^verbatim>\<open>RTSPStreamManager\<close>,
  \<^verbatim>\<open>handleStreamError\<close> removes the record before it schedules the retry, so
  \<^verbatim>\<open>stopStream\<close> returns at its first test and cancels nothing: the retry timer stays
  scheduled and registered, and when it fires the stream is started again, with a new
  FFmpeg process and a record in state connecting. \<^verbatim>\<open>AutonomousRTSPManager\<close> has the
  same early exit: after a failed start, \<^verbatim>\<open>stopStream\<close> leaves the reconnection timer
  scheduled and registered.
\<close>

theorem stopStream_keeps_pending_retry:
  "rsm_streamData rsm_retrying ''1_low'' = None
   \<and> map_of (rsm_reconnectTimers rsm_retrying) ''1_low'' = Some 1
   \<and> rsm_stopStream ''1_low'' rsm_retrying = rsm_retrying
   \<and> map_of (rsm_timers (rsm_stopStream ''1_low'' rsm_retrying)) 1 = Some (RetryTimer ''1_low'' 0)
   \<and> rsm_streamData (rsm_fireTimer 1 (rsm_stopStream ''1_low'' rsm_retrying)) ''1_low'' =
       Some (1, \<lparr> ff_process = 1, ff_camera = camA, ff_quality = ''low'',
                   ff_status = Connecting, ff_connectionTimer = Some 2 \<rparr>)
   \<and> map_of (rsm_processes (rsm_fireTimer 1 (rsm_stopStream ''1_low'' rsm_retrying))) 1 =
       Some \<lparr> pr_rtspUrl = ''rtsp://10.0.0.1/live'', pr_streamId = ''1_low'',
              pr_quality = ''low'', pr_camera = camA, pr_streamData = 1,
              pr_killed = False, pr_signals = [] \<rparr>
   \<and> stopStream ''1_low'' (failed_starts 1) = failed_starts 1
   \<and> map_of (reconnectTimers (stopStream ''1_low'' (failed_starts 1))) ''1_low'' = Some 0
   \<and> map_of (timers (stopStream ''1_low'' (failed_starts 1))) 0
       = Some (ReconnectTimer ''1_low'' camA 1)"
proof -
  have stop: "rsm_stopStream ''1_low'' rsm_retrying = rsm_retrying"
    unfolding rsm_retrying_value by (simp add: rsm_stopStream_def rsm_streamData_def)
  have am_stop: "stopStream ''1_low'' (failed_starts 1) = failed_starts 1"
    unfolding failed_starts_1 by (simp add: stopStream_def)
  have fire: "rsm_fireTimer 1 rsm_retrying =
     \<lparr> rsm_activeStreams = [(''1_low'', 1)],
       rsm_objects = [(0, \<lparr> ff_process = 0, ff_camera = camA, ff_quality = ''low'',
                            ff_status = Connecting, ff_connectionTimer = Some 0 \<rparr>),
                      (1, \<lparr> ff_process = 1, ff_camera = camA, ff_quality = ''low'',
                            ff_status = Connecting, ff_connectionTimer = Some 2 \<rparr>)],
       rsm_processes = [(0, \<lparr> pr_rtspUrl = ''rtsp://10.0.0.1/live'', pr_streamId = ''1_low'',
                              pr_quality = ''low'', pr_camera = camA, pr_streamData = 0,
                              pr_killed = False, pr_signals = [] \<rparr>),
                        (1, \<lparr> pr_rtspUrl = ''rtsp://10.0.0.1/live'', pr_streamId = ''1_low'',
                              pr_quality = ''low'', pr_camera = camA, pr_streamData = 1,
                              pr_killed = False, pr_signals = [] \<rparr>)],
       rsm_connectionAttempts = [(''1_low'', 1)], rsm_reconnectTimers = [],
       rsm_conf = rsm_default_config,
       rsm_timers = [(2, ConnectionTimer ''1_low'' camA)], rsm_nextTimer = 3,
       rsm_events = [StreamError ''1_low'' ProcessError 1] \<rparr>"
    unfolding rsm_retrying_value
    by (simp add: rsm_fireTimer_def rsm_startStream_def rsm_streamData_def rsm_setTimeout_def
          streamKey_def truthy_def Let_def)
  show ?thesis
    unfolding stop am_stop fire unfolding rsm_retrying_value failed_starts_1
    by (simp add: rsm_streamData_def)
qed

subsection \<open>Invariants of the reachable states\<close>

lemma streamKey_nonempty [simp]: "streamKey c q \<noteq> []"
  by (simp add: streamKey_def)

lemma update_present_keys:
  "map_of al k \<noteq> None \<Longrightarrow> map fst (AList.update k v al) = map fst al"
  by (simp add: update_keys map_of_eq_None_iff)

lemma update_fresh_keys:
  "map_of al k = None \<Longrightarrow> map fst (AList.update k v al) = map fst al @ [k]"
  by (simp add: update_keys map_of_eq_None_iff)

lemma fresh_ref: "\<forall>r \<in> fst ` set al. r < length al \<Longrightarrow> map_of al (length al) = None"
  by (auto simp add: map_of_eq_None_iff)

lemma records_ok_frame:
  "activeStreams s' = activeStreams s \<Longrightarrow> objects s' = objects s \<Longrightarrow>
     records_ok s \<Longrightarrow> records_ok s'"
  by (simp add: records_ok_def)

lemma keys_delete: "fst ` set (AList.delete k al) = fst ` set al - {k}"
  using delete_keys[of k al] set_removeAll[of k "map fst al"]
  by (metis list.set_map)

lemma owner_set: "(\<forall>k. (k \<in> K) = (c = Some k)) \<longleftrightarrow> K = set_option c"
  by (cases c) auto

lemma audio_ok_keys:
  "audio_ok s \<longleftrightarrow>
     fst ` set (audioStreams s) = set_option (currentAudioStream s) \<and>
     currentAudioStream s \<noteq> Some []"
  unfolding audio_ok_def hasAudio_def map_of_eq_None_iff
  by (simp only: owner_set not_not)

lemma audio_ok_frame:
  "audioStreams s' = audioStreams s \<Longrightarrow> currentAudioStream s' = currentAudioStream s \<Longrightarrow>
     audio_ok s \<Longrightarrow> audio_ok s'"
  by (simp add: audio_ok_def hasAudio_def)

lemma records_ok_delete:
  "activeStreams s' = AList.delete k (activeStreams s) \<Longrightarrow> objects s' = objects s \<Longrightarrow>
     records_ok s \<Longrightarrow> records_ok s'"
  by (simp add: records_ok_def delete_conv')

lemma records_ok_stopStream: "records_ok s \<Longrightarrow> records_ok (stopStream k s)"
  by (rule records_ok_delete[of _ k s]) simp_all

lemma release_owner:
  "set_option c - {k} = set_option (if c = Some k then None else c)"
  by (cases c) auto

lemma audio_ok_stopAudioStream:
  assumes "audio_ok s"
  shows "audio_ok (stopAudioStream k s)"
proof -
  from assms have K: "fst ` set (audioStreams s) = set_option (currentAudioStream s)"
    and ne: "currentAudioStream s \<noteq> Some []"
    by (simp_all add: audio_ok_keys)
  have "fst ` set (audioStreams (stopAudioStream k s))
          = set_option (currentAudioStream (stopAudioStream k s))"
    by (simp add: keys_delete K release_owner)
  moreover have "currentAudioStream (stopAudioStream k s) \<noteq> Some []"
    using ne by simp
  ultimately show ?thesis by (simp only: audio_ok_keys simp_thms)
qed

lemma audio_ok_stopStream:
  assumes "audio_ok s"
  shows "audio_ok (stopStream k s)"
proof (cases "map_of (activeStreams s) k = None")
  case True
  with assms show ?thesis by (simp add: stopStream_absent)
next
  case False
  from assms have K: "fst ` set (audioStreams s) = set_option (currentAudioStream s)"
    and ne: "currentAudioStream s \<noteq> Some []"
    by (simp_all add: audio_ok_keys)
  have a: "fst ` set (audioStreams (stopStream k s)) = set_option (currentAudioStream s) - {k}"
    by (simp add: stopStream_present_fields(3)[OF False] keys_delete K)
  have "(map_of (audioStreams s) k \<noteq> None \<and> currentAudioStream s = Some k)
          = (currentAudioStream s = Some k)"
    unfolding map_of_eq_None_iff K by auto
  then have c: "currentAudioStream (stopStream k s) =
            (if currentAudioStream s = Some k then None else currentAudioStream s)"
    by (simp only: stopStream_present_fields(4)[OF False])
  have "fst ` set (audioStreams (stopStream k s))
          = set_option (currentAudioStream (stopStream k s))"
    unfolding a c by (rule release_owner)
  moreover have "currentAudioStream (stopStream k s) \<noteq> Some []"
    unfolding c using ne by simp
  ultimately show ?thesis by (simp only: audio_ok_keys simp_thms)
qed

lemma startAudioStream_audio:
  "audioStreams (snd (startAudioStream sd s)) =
     AList.update (sd_id sd) (''/audio_demo/'' @ sd_id sd, True)
       (case currentAudioStream s of
          None \<Rightarrow> audioStreams s
        | Some cur \<Rightarrow> if cur \<noteq> [] \<and> cur \<noteq> sd_id sd
                      then AList.delete cur (audioStreams s) else audioStreams s)"
  "currentAudioStream (snd (startAudioStream sd s)) = Some (sd_id sd)"
  by (simp_all add: startAudioStream_def Let_def split: option.splits)

lemma startAudioStream_fields [simp]:
  "activeStreams (snd (startAudioStream sd s)) = activeStreams s"
  "objects (snd (startAudioStream sd s)) = objects s"
  "servers (snd (startAudioStream sd s)) = servers s"
  "connectionAttempts (snd (startAudioStream sd s)) = connectionAttempts s"
  "reconnectTimers (snd (startAudioStream sd s)) = reconnectTimers s"
  "config (snd (startAudioStream sd s)) = config s"
  "nextProxyPort (snd (startAudioStream sd s)) = nextProxyPort s"
  "timers (snd (startAudioStream sd s)) = timers s"
  "nextTimer (snd (startAudioStream sd s)) = nextTimer s"
  "sockets (snd (startAudioStream sd s)) = sockets s"
  "nextSocket (snd (startAudioStream sd s)) = nextSocket s"
  "events (snd (startAudioStream sd s)) = events s"
  by (simp_all add: startAudioStream_def Let_def split: option.splits)

lemma acquire_owner:
  "k \<noteq> [] \<Longrightarrow> c \<noteq> Some [] \<Longrightarrow>
   {k} \<union> fst ` set (case c of None \<Rightarrow> al
        | Some cur \<Rightarrow> if cur \<noteq> [] \<and> cur \<noteq> k then AList.delete cur al else al) = {k}"
  if "fst ` set al = set_option c"
  using that by (cases c) (auto simp add: keys_delete)

lemma audio_ok_startAudioStream:
  assumes "audio_ok s" and "sd_id sd \<noteq> []"
  shows "audio_ok (snd (startAudioStream sd s))"
proof -
  from assms have K: "fst ` set (audioStreams s) = set_option (currentAudioStream s)"
    and ne: "currentAudioStream s \<noteq> Some []"
    by (simp_all add: audio_ok_keys)
  have "fst ` set (audioStreams (snd (startAudioStream sd s))) = {sd_id sd}"
    unfolding startAudioStream_audio dom_update
    by (rule acquire_owner[OF K assms(2) ne])
  then show ?thesis
    using assms(2) by (simp add: audio_ok_keys startAudioStream_audio(2))
qed


lemma setTimeout_fields [simp]:
  "activeStreams (snd (setTimeout act s)) = activeStreams s"
  "objects (snd (setTimeout act s)) = objects s"
  "servers (snd (setTimeout act s)) = servers s"
  "connectionAttempts (snd (setTimeout act s)) = connectionAttempts s"
  "reconnectTimers (snd (setTimeout act s)) = reconnectTimers s"
  "audioStreams (snd (setTimeout act s)) = audioStreams s"
  "currentAudioStream (snd (setTimeout act s)) = currentAudioStream s"
  "config (snd (setTimeout act s)) = config s"
  "nextProxyPort (snd (setTimeout act s)) = nextProxyPort s"
  "sockets (snd (setTimeout act s)) = sockets s"
  "nextSocket (snd (setTimeout act s)) = nextSocket s"
  "events (snd (setTimeout act s)) = events s"
  "timers (snd (setTimeout act s)) = AList.update (nextTimer s) act (timers s)"
  "nextTimer (snd (setTimeout act s)) = nextTimer s + 1"
  "fst (setTimeout act s) = nextTimer s"
  by (simp_all add: setTimeout_def)

text \<open>\<^verbatim>\<open>startStream\<close> with its three outcomes side by side.\<close>

lemma startStream_unfold:
  "startStream cam q a info l s =
     (let k = streamKey (cam_id cam) q;
          s1 = (if map_of (activeStreams s) k \<noteq> None then stopStream k s else s)
      in if maxConnections (config s) \<le> length (activeStreams s1)
         then (Inl (CapacityExceeded (maxConnections (config s))),
               handleStreamError k cam (CapacityExceeded (maxConnections (config s))) s1)
         else if \<not> l
         then (Inl ProxyServerError,
               handleStreamError k cam ProxyServerError (snd (createStreamProxy False s1)))
         else (let s2 = snd (createStreamProxy True s1);
                   r = length (objects s1);
                   sd = \<lparr> sd_id = k, sd_camera = cam, sd_quality = q,
                          sd_streamUrl = selectStreamUrl cam q, sd_streamInfo = info,
                          sd_proxyServer = length (servers s1),
                          sd_proxyPort = nextProxyPort s1,
                          sd_status = Connecting, sd_includeAudio = a,
                          bytesTransferred = 0, clientsConnected = 0 \<rparr>;
                   s4 = s2\<lparr> objects := AList.update r sd (objects s1),
                            activeStreams := AList.update k r (activeStreams s1),
                            connectionAttempts := AList.update k 0 (connectionAttempts s1) \<rparr>;
                   s5 = (if a then snd (startAudioStream sd s4) else s4)
               in (Inr k, snd (setTimeout (ConnectedTimer r k cam) s5))))"
  by (simp add: startStream_def startStream_catch_def Let_def createStreamProxy_def
        startAudioStream_def update_conv' split: option.splits)


lemma handleStreamError_retry_fields:
  assumes "attemptsOf (connectionAttempts s) k + 1 < maxRetries (config s)"
  shows "objects (handleStreamError k cam e s) = objects s"
    and "audioStreams (handleStreamError k cam e s) = audioStreams s"
    and "currentAudioStream (handleStreamError k cam e s) = currentAudioStream s"
    and "servers (handleStreamError k cam e s) = servers s"
    and "nextProxyPort (handleStreamError k cam e s) = nextProxyPort s"
    and "config (handleStreamError k cam e s) = config s"
    and "sockets (handleStreamError k cam e s) = sockets s"
    and "nextSocket (handleStreamError k cam e s) = nextSocket s"
  using assms
  by (simp_all add: handleStreamError_def Let_def setTimeout_def emit_def)

lemma handleStreamError_fields [simp]:
  "objects (handleStreamError k cam e s) = objects s"
  "config (handleStreamError k cam e s) = config s"
  "nextProxyPort (handleStreamError k cam e s) = nextProxyPort s"
  "sockets (handleStreamError k cam e s) = sockets s"
  "nextSocket (handleStreamError k cam e s) = nextSocket s"
proof -
  consider (retry) "attemptsOf (connectionAttempts s) k + 1 < maxRetries (config s)"
    | (failed) "maxRetries (config s) \<le> attemptsOf (connectionAttempts s) k + 1"
    by linarith
  then have "objects (handleStreamError k cam e s) = objects s
      \<and> config (handleStreamError k cam e s) = config s
      \<and> nextProxyPort (handleStreamError k cam e s) = nextProxyPort s
      \<and> sockets (handleStreamError k cam e s) = sockets s
      \<and> nextSocket (handleStreamError k cam e s) = nextSocket s"
  proof cases
    case retry
    then show ?thesis by (simp add: handleStreamError_retry_fields)
  next
    case failed
    then show ?thesis by (simp add: handleStreamError_failed_eq)
  qed
  then show "objects (handleStreamError k cam e s) = objects s"
    "config (handleStreamError k cam e s) = config s"
    "nextProxyPort (handleStreamError k cam e s) = nextProxyPort s"
    "sockets (handleStreamError k cam e s) = sockets s"
    "nextSocket (handleStreamError k cam e s) = nextSocket s"
    by simp_all
qed

lemma records_ok_handleStreamError:
  assumes "records_ok s"
  shows "records_ok (handleStreamError k cam e s)"
proof (cases "attemptsOf (connectionAttempts s) k + 1 < maxRetries (config s)")
  case True
  show ?thesis
    by (rule records_ok_frame[OF _ _ assms])
       (simp_all add: handleStreamError_retry(2)[OF True])
next
  case False
  then have le: "maxRetries (config s) \<le> attemptsOf (connectionAttempts s) k + 1" by simp
  show ?thesis
    unfolding handleStreamError_failed_eq[OF le]
    by (rule records_ok_stopStream) (rule records_ok_frame[OF _ _ assms], simp_all)
qed

lemma audio_ok_handleStreamError:
  assumes "audio_ok s"
  shows "audio_ok (handleStreamError k cam e s)"
proof (cases "attemptsOf (connectionAttempts s) k + 1 < maxRetries (config s)")
  case True
  show ?thesis
    by (rule audio_ok_frame[OF _ _ assms])
       (simp_all add: handleStreamError_retry_fields[OF True])
next
  case False
  then have le: "maxRetries (config s) \<le> attemptsOf (connectionAttempts s) k + 1" by simp
  show ?thesis
    unfolding handleStreamError_failed_eq[OF le]
    by (rule audio_ok_stopStream) (rule audio_ok_frame[OF _ _ assms], simp_all)
qed

lemma records_ok_register:
  assumes "records_ok s1"
      and "objects s' = AList.update (length (objects s1)) sd (objects s1)"
      and "activeStreams s' = AList.update (sd_id sd) (length (objects s1)) (activeStreams s1)"
      and "sd_id sd \<noteq> []"
  shows "records_ok s'"
proof -
  from assms(1) have bound: "\<forall>r \<in> fst ` set (objects s1). r < length (objects s1)"
    and recs: "\<And>k r. map_of (activeStreams s1) k = Some r \<Longrightarrow>
                 k \<noteq> [] \<and> (\<exists>sd. map_of (objects s1) r = Some sd \<and> sd_id sd = k)"
    by (simp_all add: records_ok_def)
  have fresh: "map_of (objects s1) (length (objects s1)) = None"
    by (rule fresh_ref[OF bound])
  have len: "length (objects s') = Suc (length (objects s1))"
    using update_fresh_keys[OF fresh, of sd] assms(2)
    by (metis length_append_singleton length_map)
  have keys: "fst ` set (objects s') = insert (length (objects s1)) (fst ` set (objects s1))"
    by (simp add: assms(2) dom_update)
  have b': "\<forall>r \<in> fst ` set (objects s'). r < length (objects s')"
    unfolding keys len using bound by (simp add: less_Suc_eq)
  have r': "\<forall>k r. map_of (activeStreams s') k = Some r \<longrightarrow>
              k \<noteq> [] \<and> (\<exists>sd'. map_of (objects s') r = Some sd' \<and> sd_id sd' = k)"
  proof (intro allI impI)
    fix k r assume kr: "map_of (activeStreams s') k = Some r"
    show "k \<noteq> [] \<and> (\<exists>sd'. map_of (objects s') r = Some sd' \<and> sd_id sd' = k)"
    proof (cases "k = sd_id sd")
      case True
      with kr have "r = length (objects s1)" by (simp add: assms(3) update_conv')
      then show ?thesis using True assms(4) by (simp add: assms(2) update_conv')
    next
      case False
      with kr have old: "map_of (activeStreams s1) k = Some r"
        by (simp add: assms(3) update_conv')
      from recs[OF old] obtain sd' where o: "map_of (objects s1) r = Some sd'" "sd_id sd' = k"
        and kne: "k \<noteq> []"
        by blast
      with fresh have "r \<noteq> length (objects s1)" by auto
      with o kne show ?thesis by (simp add: assms(2) update_conv')
    qed
  qed
  from b' r' show ?thesis by (simp only: records_ok_def simp_thms)
qed

lemma inv_startStream:
  assumes "records_ok s" and "audio_ok s"
  shows "records_ok (snd (startStream cam q a info l s)) \<and>
         audio_ok (snd (startStream cam q a info l s))"
proof -
  define k where "k = streamKey (cam_id cam) q"
  define s1 where "s1 = (if map_of (activeStreams s) k \<noteq> None then stopStream k s else s)"
  have r1: "records_ok s1" and a1: "audio_ok s1"
    using assms by (simp_all add: s1_def records_ok_stopStream audio_ok_stopStream)
  consider (full) "maxConnections (config s) \<le> length (activeStreams s1)"
    | (nolisten) "\<not> maxConnections (config s) \<le> length (activeStreams s1)" "\<not> l"
    | (ok) "\<not> maxConnections (config s) \<le> length (activeStreams s1)" "l"
    by blast
  then show ?thesis
  proof cases
    case full
    have "snd (startStream cam q a info l s) =
        handleStreamError k cam (CapacityExceeded (maxConnections (config s))) s1"
      unfolding startStream_unfold Let_def k_def[symmetric] s1_def[symmetric]
      using full by simp
    then show ?thesis
      using r1 a1 by (simp add: records_ok_handleStreamError audio_ok_handleStreamError)
  next
    case nolisten
    have eq: "snd (startStream cam q a info l s) =
        handleStreamError k cam ProxyServerError (snd (createStreamProxy False s1))"
      unfolding startStream_unfold Let_def k_def[symmetric] s1_def[symmetric]
      using nolisten by simp
    have "records_ok (snd (createStreamProxy False s1))"
      by (rule records_ok_frame[OF _ _ r1]) (simp_all add: createStreamProxy_fields)
    moreover have "audio_ok (snd (createStreamProxy False s1))"
      by (rule audio_ok_frame[OF _ _ a1]) (simp_all add: createStreamProxy_fields)
    ultimately show ?thesis
      unfolding eq by (simp add: records_ok_handleStreamError audio_ok_handleStreamError)
  next
    case ok
    define sd where "sd = \<lparr> sd_id = k, sd_camera = cam, sd_quality = q,
                          sd_streamUrl = selectStreamUrl cam q, sd_streamInfo = info,
                          sd_proxyServer = length (servers s1),
                          sd_proxyPort = nextProxyPort s1,
                          sd_status = Connecting, sd_includeAudio = a,
                          bytesTransferred = 0, clientsConnected = 0 \<rparr>"
    define s4 where "s4 = (snd (createStreamProxy True s1))
                          \<lparr> objects := AList.update (length (objects s1)) sd (objects s1),
                            activeStreams := AList.update k (length (objects s1)) (activeStreams s1),
                            connectionAttempts := AList.update k 0 (connectionAttempts s1) \<rparr>"
    define s5 where "s5 = (if a then snd (startAudioStream sd s4) else s4)"
    have eq: "snd (startStream cam q a info l s) =
                snd (setTimeout (ConnectedTimer (length (objects s1)) k cam) s5)"
      unfolding startStream_unfold Let_def k_def[symmetric] s1_def[symmetric] sd_def s4_def s5_def
      using ok by simp
    have idk: "sd_id sd = k" by (simp add: sd_def)
    have r4: "records_ok s4"
      by (rule records_ok_register[OF r1, of _ sd]) (simp_all add: s4_def idk k_def)
    have a4: "audio_ok s4"
      by (rule audio_ok_frame[OF _ _ a1]) (simp_all add: s4_def createStreamProxy_fields)
    have r5: "records_ok s5"
      unfolding s5_def using r4 by (auto intro: records_ok_frame[OF _ _ r4])
    have a5: "audio_ok s5"
      unfolding s5_def using a4 by (simp add: audio_ok_startAudioStream idk k_def)
    have "records_ok (snd (setTimeout (ConnectedTimer (length (objects s1)) k cam) s5))"
      by (rule records_ok_frame[OF _ _ r5]) simp_all
    moreover have "audio_ok (snd (setTimeout (ConnectedTimer (length (objects s1)) k cam) s5))"
      by (rule audio_ok_frame[OF _ _ a5]) simp_all
    ultimately show ?thesis unfolding eq by simp
  qed
qed

lemma inv_fold_stopStream:
  "records_ok s \<Longrightarrow> audio_ok s \<Longrightarrow>
     records_ok (fold stopStream ks s) \<and> audio_ok (fold stopStream ks s)"
  by (induction ks arbitrary: s) (simp_all add: records_ok_stopStream audio_ok_stopStream)

lemma inv_stopAllStreams:
  assumes "records_ok s" and "audio_ok s"
  shows "records_ok (stopAllStreams s) \<and> audio_ok (stopAllStreams s)"
proof -
  let ?t = "fold stopStream (map fst (activeStreams s)) s"
  have t: "records_ok ?t" "audio_ok ?t"
    using inv_fold_stopStream[OF assms] by simp_all
  have "records_ok (stopAllStreams s)"
    by (rule records_ok_frame[OF _ _ t(1)]) (simp_all add: stopAllStreams_def)
  moreover have "audio_ok (stopAllStreams s)"
    by (rule audio_ok_frame[OF _ _ t(2)]) (simp_all add: stopAllStreams_def)
  ultimately show ?thesis by simp
qed

lemma toggleAudio_unfold:
  "toggleAudio c q s =
     (case map_of (activeStreams s) (streamKey c q) of
        None \<Rightarrow> (Inl (StreamNotFound (streamKey c q)), s)
      | Some r \<Rightarrow>
          (case map_of (objects s) r of
             None \<Rightarrow> (Inl (StreamNotFound (streamKey c q)), s)
           | Some sd \<Rightarrow>
               if currentAudioStream s = Some (streamKey c q)
               then (Inr False, emit (AudioStopped (streamKey c q))
                                  (stopAudioStream (streamKey c q) s))
               else (Inr True, emit (AudioStarted (streamKey c q))
                                 (snd (startAudioStream sd s)))))"
  by (simp add: toggleAudio_def toggleAudio_with_def Let_def startAudioStream_def
        split: option.splits)

lemma inv_toggleAudio:
  assumes "records_ok s" and "audio_ok s"
  shows "records_ok (snd (toggleAudio c q s)) \<and> audio_ok (snd (toggleAudio c q s))"
proof (cases "map_of (activeStreams s) (streamKey c q)")
  case None
  with assms show ?thesis by (simp add: toggleAudio_unfold)
next
  case (Some r)
  with assms(1) obtain sd where sd: "map_of (objects s) r = Some sd" "sd_id sd = streamKey c q"
    unfolding records_ok_def by blast
  show ?thesis
  proof (cases "currentAudioStream s = Some (streamKey c q)")
    case True
    have eq: "snd (toggleAudio c q s) =
                emit (AudioStopped (streamKey c q)) (stopAudioStream (streamKey c q) s)"
      using Some sd True by (simp add: toggleAudio_unfold)
    have "records_ok (snd (toggleAudio c q s))"
      unfolding eq by (rule records_ok_frame[OF _ _ assms(1)]) simp_all
    moreover have "audio_ok (snd (toggleAudio c q s))"
      unfolding eq
      by (rule audio_ok_frame[OF _ _ audio_ok_stopAudioStream[OF assms(2)]]) simp_all
    ultimately show ?thesis by simp
  next
    case False
    have eq: "snd (toggleAudio c q s) =
                emit (AudioStarted (streamKey c q)) (snd (startAudioStream sd s))"
      using Some sd False by (simp add: toggleAudio_unfold)
    have ne: "sd_id sd \<noteq> []" by (simp add: sd(2))
    have "records_ok (snd (toggleAudio c q s))"
      unfolding eq by (rule records_ok_frame[OF _ _ assms(1)]) simp_all
    moreover have "audio_ok (snd (toggleAudio c q s))"
      unfolding eq
      by (rule audio_ok_frame[OF _ _ audio_ok_startAudioStream[OF assms(2) ne]]) simp_all
    ultimately show ?thesis by simp
  qed
qed

lemma records_ok_touch:
  assumes "records_ok s" and "map_of (objects s) r = Some sd" and "sd_id sd' = sd_id sd"
      and "objects s' = AList.update r sd' (objects s)" and "activeStreams s' = activeStreams s"
  shows "records_ok s'"
proof -
  from assms(1) have bound: "\<forall>r \<in> fst ` set (objects s). r < length (objects s)"
    and recs: "\<And>k r. map_of (activeStreams s) k = Some r \<Longrightarrow>
                 k \<noteq> [] \<and> (\<exists>sd. map_of (objects s) r = Some sd \<and> sd_id sd = k)"
    by (simp_all add: records_ok_def)
  have present: "map_of (objects s) r \<noteq> None" using assms(2) by simp
  have keys: "map fst (objects s') = map fst (objects s)"
    by (simp add: assms(4) update_present_keys[OF present])
  then have len: "length (objects s') = length (objects s)"
    by (metis length_map)
  have kset: "fst ` set (objects s') = fst ` set (objects s)"
    using keys by (metis list.set_map)
  have b': "\<forall>r \<in> fst ` set (objects s'). r < length (objects s')"
    unfolding kset len by (rule bound)
  have r': "\<forall>k x. map_of (activeStreams s') k = Some x \<longrightarrow>
              k \<noteq> [] \<and> (\<exists>sd'. map_of (objects s') x = Some sd' \<and> sd_id sd' = k)"
  proof (intro allI impI)
    fix k x assume "map_of (activeStreams s') k = Some x"
    then have old: "map_of (activeStreams s) k = Some x" by (simp add: assms(5))
    from recs[OF old] obtain sd0 where o: "map_of (objects s) x = Some sd0" "sd_id sd0 = k"
      and kne: "k \<noteq> []"
      by blast
    show "k \<noteq> [] \<and> (\<exists>sd'. map_of (objects s') x = Some sd' \<and> sd_id sd' = k)"
    proof (cases "x = r")
      case True
      with o assms(2) have "sd_id sd = k" by simp
      with True kne show ?thesis by (simp add: assms(3,4) update_conv')
    next
      case False
      with o kne show ?thesis by (simp add: assms(4) update_conv')
    qed
  qed
  from b' r' show ?thesis by (simp only: records_ok_def simp_thms)
qed

lemma bumpClients_fields [simp]:
  "activeStreams (bumpClients r d s) = activeStreams s"
  "servers (bumpClients r d s) = servers s"
  "connectionAttempts (bumpClients r d s) = connectionAttempts s"
  "reconnectTimers (bumpClients r d s) = reconnectTimers s"
  "audioStreams (bumpClients r d s) = audioStreams s"
  "currentAudioStream (bumpClients r d s) = currentAudioStream s"
  "config (bumpClients r d s) = config s"
  "nextProxyPort (bumpClients r d s) = nextProxyPort s"
  "timers (bumpClients r d s) = timers s"
  "nextTimer (bumpClients r d s) = nextTimer s"
  "sockets (bumpClients r d s) = sockets s"
  "nextSocket (bumpClients r d s) = nextSocket s"
  "events (bumpClients r d s) = events s"
  by (simp_all add: bumpClients_def split: option.splits)

lemma records_ok_bumpClients: "records_ok s \<Longrightarrow> records_ok (bumpClients r d s)"
proof (cases "map_of (objects s) r")
  case None
  assume "records_ok s"
  with None show ?thesis by (simp add: bumpClients_def)
next
  case (Some sd)
  assume ok: "records_ok s"
  show ?thesis
    by (rule records_ok_touch[OF ok Some, of "sd\<lparr> clientsConnected := clientsConnected sd + d \<rparr>"])
       (simp_all add: bumpClients_def Some)
qed

lemma connectedCallback_fields [simp]:
  "activeStreams (connectedCallback r k cam s) = activeStreams s"
  "servers (connectedCallback r k cam s) = servers s"
  "connectionAttempts (connectedCallback r k cam s) = connectionAttempts s"
  "reconnectTimers (connectedCallback r k cam s) = reconnectTimers s"
  "audioStreams (connectedCallback r k cam s) = audioStreams s"
  "currentAudioStream (connectedCallback r k cam s) = currentAudioStream s"
  "config (connectedCallback r k cam s) = config s"
  "nextProxyPort (connectedCallback r k cam s) = nextProxyPort s"
  "timers (connectedCallback r k cam s) = timers s"
  "nextTimer (connectedCallback r k cam s) = nextTimer s"
  "sockets (connectedCallback r k cam s) = sockets s"
  "nextSocket (connectedCallback r k cam s) = nextSocket s"
  "events (connectedCallback r k cam s) = events s @ [StreamConnected k]"
  by (simp_all add: connectedCallback_def split: option.splits)

lemma records_ok_connectedCallback:
  "records_ok s \<Longrightarrow> records_ok (connectedCallback r k cam s)"
proof (cases "map_of (objects s) r")
  case None
  assume ok: "records_ok s"
  show ?thesis
    by (rule records_ok_frame[OF _ _ ok]) (simp_all add: connectedCallback_def None emit_def)
next
  case (Some sd)
  assume ok: "records_ok s"
  show ?thesis
    by (rule records_ok_touch[OF ok Some, of "sd\<lparr> sd_status := Streaming \<rparr>"])
       (simp_all add: connectedCallback_def Some emit_def)
qed

lemma fireTimer_unfold:
  "snd (fireTimer t s) =
     (case map_of (timers s) t of
        None \<Rightarrow> s
      | Some (ConnectedTimer r k cam) \<Rightarrow>
          connectedCallback r k cam (s\<lparr> timers := AList.delete t (timers s) \<rparr>)
      | Some (ReconnectTimer k cam n) \<Rightarrow> s\<lparr> timers := AList.delete t (timers s) \<rparr>)"
  by (simp add: fireTimer_def Let_def reconnectCallback_throws
        split: option.splits timerAction.splits)

lemma inv_fireTimer:
  assumes "records_ok s" and "audio_ok s"
  shows "records_ok (snd (fireTimer t s)) \<and> audio_ok (snd (fireTimer t s))"
proof -
  let ?s1 = "s\<lparr> timers := AList.delete t (timers s) \<rparr>"
  have r1: "records_ok ?s1" by (rule records_ok_frame[OF _ _ assms(1)]) simp_all
  have a1: "audio_ok ?s1" by (rule audio_ok_frame[OF _ _ assms(2)]) simp_all
  have a2: "audio_ok (connectedCallback r k cam ?s1)" for r k cam
    by (rule audio_ok_frame[OF _ _ a1]) simp_all
  show ?thesis
    unfolding fireTimer_unfold
    using assms r1 a1 a2 records_ok_connectedCallback[OF r1]
    by (simp split: option.splits timerAction.splits)
qed

lemma inv_proxyConnection:
  assumes "records_ok s" and "audio_ok s"
  shows "records_ok (proxyConnection k s) \<and> audio_ok (proxyConnection k s)"
proof -
  let ?s0 = "s\<lparr> nextSocket := nextSocket s + 1 \<rparr>"
  have r0: "records_ok ?s0" by (rule records_ok_frame[OF _ _ assms(1)]) simp_all
  have a0: "audio_ok ?s0" by (rule audio_ok_frame[OF _ _ assms(2)]) simp_all
  show ?thesis
  proof (cases "map_of (activeStreams s) k")
    case None
    then show ?thesis using r0 a0 by (simp add: proxyConnection_def Let_def)
  next
    case (Some r)
    have eq: "proxyConnection k s =
                (bumpClients r 1 ?s0)\<lparr> sockets := AList.update (nextSocket s) r (sockets s) \<rparr>"
      using Some by (simp add: proxyConnection_def Let_def)
    have "records_ok (proxyConnection k s)"
      unfolding eq
      by (rule records_ok_frame[OF _ _ records_ok_bumpClients[OF r0, of r 1]]) simp_all
    moreover have "audio_ok (proxyConnection k s)"
      unfolding eq by (rule audio_ok_frame[OF _ _ a0]) simp_all
    ultimately show ?thesis by simp
  qed
qed

lemma inv_socketClose:
  assumes "records_ok s" and "audio_ok s"
  shows "records_ok (socketClose k s) \<and> audio_ok (socketClose k s)"
proof (cases "map_of (sockets s) k")
  case None
  with assms show ?thesis by (simp add: socketClose_def)
next
  case (Some r)
  have eq: "socketClose k s = (bumpClients r (- 1) s)\<lparr> sockets := AList.delete k (sockets s) \<rparr>"
    using Some by (simp add: socketClose_def)
  have "records_ok (socketClose k s)"
    unfolding eq
    by (rule records_ok_frame[OF _ _ records_ok_bumpClients[OF assms(1), of r "- 1"]]) simp_all
  moreover have "audio_ok (socketClose k s)"
    unfolding eq by (rule audio_ok_frame[OF _ _ assms(2)]) simp_all
  ultimately show ?thesis by simp
qed

subsection \<open>The parts make up the calls\<close>

lemma startAudioStream_parts:
  "startAudioStream sd s =
     (Inr (''/audio_demo/'' @ sd_id sd),
      if startAudioStream_suspends sd s
      then startAudioStream_acquire sd (startAudioStream_begin sd s)
      else startAudioStream_begin sd s)"
  by (simp add: startAudioStream_def startAudioStream_suspends_def startAudioStream_begin_def
        startAudioStream_acquire_def Let_def split: option.splits)

lemma stopStream_begin_absent:
  "map_of (activeStreams s) k = None \<Longrightarrow> stopStream_begin k s = s"
  by (simp add: stopStream_begin_def)

lemma closeServer_audio:
  "audioStreams (case map_of (objects s) r of
                   None \<Rightarrow> s | Some sd \<Rightarrow> closeServer (sd_proxyServer sd) s) = audioStreams s"
  by (simp split: option.splits)

lemma stopStream_begin_present:
  assumes "map_of (activeStreams s) k = Some r"
  shows "stopStream_begin k s =
      (if map_of (audioStreams s) k \<noteq> None
       then stopAudioStream k (case map_of (objects s) r of
                                 None \<Rightarrow> s | Some sd \<Rightarrow> closeServer (sd_proxyServer sd) s)
       else stopStream_rest k (case map_of (objects s) r of
                                 None \<Rightarrow> s | Some sd \<Rightarrow> closeServer (sd_proxyServer sd) s))"
  unfolding stopStream_begin_def Let_def closeServer_audio using assms by simp

lemma stopStream_present:
  assumes "map_of (activeStreams s) k = Some r"
  shows "stopStream k s =
      stopStream_rest k
        (if map_of (audioStreams s) k \<noteq> None
         then stopAudioStream k (case map_of (objects s) r of
                                   None \<Rightarrow> s | Some sd \<Rightarrow> closeServer (sd_proxyServer sd) s)
         else (case map_of (objects s) r of
                 None \<Rightarrow> s | Some sd \<Rightarrow> closeServer (sd_proxyServer sd) s))"
  unfolding stopStream_def stopStream_rest_def Let_def closeServer_audio using assms by simp

lemma stopStream_parts:
  "stopStream k s =
     (if stopStream_suspends k s then stopStream_rest k (stopStream_begin k s)
      else stopStream_begin k s)"
proof (cases "map_of (activeStreams s) k")
  case None
  then show ?thesis
    by (simp add: stopStream_absent stopStream_suspends_def stopStream_begin_absent)
next
  case (Some r)
  show ?thesis
    unfolding stopStream_present[OF Some] stopStream_begin_present[OF Some]
      stopStream_suspends_def
    using Some by simp
qed

lemma handleStreamError_begin_retry:
  assumes "attemptsOf (connectionAttempts s) k + 1 < maxRetries (config s)"
  shows "handleStreamError_begin k cam e s = handleStreamError k cam e s"
  using assms by (simp add: handleStreamError_begin_def handleStreamError_def Let_def)

lemma handleStreamError_begin_failed:
  assumes "maxRetries (config s) \<le> attemptsOf (connectionAttempts s) k + 1"
  shows "handleStreamError_begin k cam e s =
     stopStream_begin k (emit (StreamFailed k)
       (emit (StreamError k e (attemptsOf (connectionAttempts s) k + 1))
          (s\<lparr> connectionAttempts :=
                AList.update k (attemptsOf (connectionAttempts s) k + 1) (connectionAttempts s) \<rparr>)))"
proof -
  have "maxRetries (config (emit (StreamError k e (attemptsOf (connectionAttempts s) k + 1))
               (s\<lparr> connectionAttempts := AList.update k (attemptsOf (connectionAttempts s) k + 1)
                       (connectionAttempts s) \<rparr>))) \<le> attemptsOf (connectionAttempts s) k + 1"
    using assms by simp
  then show ?thesis
    unfolding handleStreamError_begin_def Let_def by (rule if_P)
qed

lemma handleStreamError_parts:
  "handleStreamError k cam e s =
     (if maxRetries (config s) \<le> attemptsOf (connectionAttempts s) k + 1 \<and> stopStream_suspends k s
      then stopStream_rest k (handleStreamError_begin k cam e s)
      else handleStreamError_begin k cam e s)"
proof (cases "maxRetries (config s) \<le> attemptsOf (connectionAttempts s) k + 1")
  case True
  show ?thesis
    unfolding handleStreamError_failed_eq[OF True] handleStreamError_begin_failed[OF True]
      stopStream_parts[of k "emit _ _"]
    using True by (simp add: stopStream_suspends_def)
next
  case False
  then show ?thesis by (simp add: handleStreamError_begin_retry)
qed

lemma toggleAudio_parts:
  "toggleAudio c q s =
     (case toggleAudio_begin c q s of
        (Inl e, s1) \<Rightarrow> (Inl e, s1)
      | (Inr False, s1) \<Rightarrow> (Inr False, emit (AudioStopped (streamKey c q)) s1)
      | (Inr True, s1) \<Rightarrow>
          (Inr True, emit (AudioStarted (streamKey c q))
             (case map_of (activeStreams s) (streamKey c q) of
                None \<Rightarrow> s1
              | Some r \<Rightarrow> (case map_of (objects s) r of
                   None \<Rightarrow> s1
                 | Some sd \<Rightarrow> if startAudioStream_suspends sd s
                              then startAudioStream_acquire sd s1 else s1))))"
  by (simp add: toggleAudio_unfold toggleAudio_begin_def startAudioStream_parts Let_def
        split: option.splits)

lemma createStreamProxy_parts:
  "createStreamProxy l s =
     (case createStreamProxy_begin s of
        (p, s1) \<Rightarrow>
          if l then (Inr p, s1\<lparr> servers := AList.update p
                                   \<lparr> srv_port = nextProxyPort s, srv_listening = True \<rparr> (servers s1) \<rparr>)
          else (Inl ProxyServerError, s1))"
  by (simp add: createStreamProxy_def createStreamProxy_begin_def Let_def)

lemma stopAllStreams_parts:
  "stopAllStreams s = stopAllStreams_reset (fold stopStream (map fst (activeStreams s)) s)"
proof -
  have "config (fold stopStream ks s) = config s" for ks
    by (induction ks arbitrary: s) simp_all
  then show ?thesis by (simp add: stopAllStreams_def stopAllStreams_reset_def)
qed

lemma handleStreamError_begin_absent:
  "map_of (activeStreams s) k = None \<Longrightarrow>
     handleStreamError_begin k cam e s = handleStreamError k cam e s"
  by (simp add: handleStreamError_begin_def handleStreamError_def Let_def
        stopStream_absent stopStream_begin_absent)

lemma startAudioStream_begin_current:
  "currentAudioStream (startAudioStream_begin sd s) = Some (sd_id sd)
     \<longleftrightarrow> \<not> startAudioStream_suspends sd s"
  by (simp add: startAudioStream_begin_def startAudioStream_suspends_def
        startAudioStream_acquire_def Let_def split: option.splits)

lemma startAudioStream_begin_objects [simp]:
  "objects (startAudioStream_begin sd s) = objects s"
  "activeStreams (startAudioStream_begin sd s) = activeStreams s"
  "servers (startAudioStream_begin sd s) = servers s"
  by (simp_all add: startAudioStream_begin_def startAudioStream_acquire_def Let_def
        split: option.splits)

lemma startStream_parts:
  "startStream cam q a info l s =
     (let k = streamKey (cam_id cam) q;
          s0 = (if map_of (activeStreams s) k \<noteq> None then stopStream k s else s)
      in case startStream_check cam q s0 of
           (Inl e, s1) \<Rightarrow> (Inl e, s1)
         | (Inr u, s1) \<Rightarrow>
             (case createStreamProxy_begin s1 of
                (p, s2) \<Rightarrow>
                  (case startStream_listened p cam q a info l s2 of
                     (Inl e, s3) \<Rightarrow> (Inl e, s3)
                   | (Inr r, s3) \<Rightarrow>
                       (Inr k,
                        if a then startStream_finish r k cam
                                    (if currentAudioStream s3 = Some k then s3
                                     else run (StartAudioStream_acquire r) s3)
                        else s3))))"
proof -
  define k where "k = streamKey (cam_id cam) q"
  define s0 where "s0 = (if map_of (activeStreams s) k \<noteq> None then stopStream k s else s)"
  have nok: "map_of (activeStreams s0) k = None"
    by (simp add: s0_def map_of_delete_same)
  have cfg: "config s0 = config s" by (simp add: s0_def)
  consider (full) "maxConnections (config s) \<le> length (activeStreams s0)"
    | (nolisten) "\<not> maxConnections (config s) \<le> length (activeStreams s0)" "\<not> l"
    | (ok) "\<not> maxConnections (config s) \<le> length (activeStreams s0)" "l"
    by blast
  then show ?thesis
  proof cases
    case full
    have L: "startStream cam q a info l s =
        (Inl (CapacityExceeded (maxConnections (config s))),
         handleStreamError k cam (CapacityExceeded (maxConnections (config s))) s0)"
      unfolding startStream_unfold Let_def k_def[symmetric] s0_def[symmetric]
      using full by simp
    have R: "startStream_check cam q s0 =
        (Inl (CapacityExceeded (maxConnections (config s))),
         handleStreamError k cam (CapacityExceeded (maxConnections (config s))) s0)"
      unfolding startStream_check_def Let_def k_def[symmetric]
      using full by (simp add: cfg handleStreamError_begin_absent[OF nok])
    show ?thesis
      unfolding Let_def k_def[symmetric] s0_def[symmetric] R L by simp
  next
    case nolisten
    have L: "startStream cam q a info l s =
        (Inl ProxyServerError,
         handleStreamError k cam ProxyServerError (snd (createStreamProxy False s0)))"
      unfolding startStream_unfold Let_def k_def[symmetric] s0_def[symmetric]
      using nolisten by simp
    have C: "startStream_check cam q s0 = (Inr (), s0)"
      unfolding startStream_check_def Let_def using nolisten by (simp add: cfg)
    have P: "createStreamProxy_begin s0 = (length (servers s0), snd (createStreamProxy False s0))"
      by (simp add: createStreamProxy_begin_def createStreamProxy_def Let_def)
    have nok2: "map_of (activeStreams (snd (createStreamProxy False s0))) k = None"
      using nok by (simp add: createStreamProxy_fields)
    have Li: "startStream_listened p cam q a info l (snd (createStreamProxy False s0)) =
        (Inl ProxyServerError,
         handleStreamError k cam ProxyServerError (snd (createStreamProxy False s0)))" for p
      unfolding startStream_listened_def Let_def k_def[symmetric]
      using nolisten by (simp add: handleStreamError_begin_absent[OF nok2])
    show ?thesis
      unfolding Let_def k_def[symmetric] s0_def[symmetric] C L by (simp add: P Li)
  next
    case ok
    define sd where "sd = \<lparr> sd_id = k, sd_camera = cam, sd_quality = q,
                          sd_streamUrl = selectStreamUrl cam q, sd_streamInfo = info,
                          sd_proxyServer = length (servers s0),
                          sd_proxyPort = nextProxyPort s0,
                          sd_status = Connecting, sd_includeAudio = a,
                          bytesTransferred = 0, clientsConnected = 0 \<rparr>"
    define s4 where "s4 = (snd (createStreamProxy True s0))
                          \<lparr> objects := AList.update (length (objects s0)) sd (objects s0),
                            activeStreams := AList.update k (length (objects s0)) (activeStreams s0),
                            connectionAttempts := AList.update k 0 (connectionAttempts s0) \<rparr>"
    have L: "startStream cam q a info l s =
        (Inr k, snd (setTimeout (ConnectedTimer (length (objects s0)) k cam)
                       (if a then snd (startAudioStream sd s4) else s4)))"
      unfolding startStream_unfold Let_def k_def[symmetric] s0_def[symmetric] sd_def s4_def
      using ok by simp
    have C: "startStream_check cam q s0 = (Inr (), s0)"
      unfolding startStream_check_def Let_def using ok by (simp add: cfg)
    have P: "createStreamProxy_begin s0 = (length (servers s0), snd (createStreamProxy False s0))"
      by (simp add: createStreamProxy_begin_def createStreamProxy_def Let_def)
    have Li: "startStream_listened (length (servers s0)) cam q a info l
                (snd (createStreamProxy False s0)) =
        (Inr (length (objects s0)),
         if a then startAudioStream_begin sd s4
         else startStream_finish (length (objects s0)) k cam s4)"
      unfolding startStream_listened_def Let_def k_def[symmetric] sd_def s4_def
      using ok by (simp add: createStreamProxy_def Let_def update_conv')
    have obj: "map_of (objects s4) (length (objects s0)) = Some sd"
      by (simp add: s4_def update_conv')
    have idk: "sd_id sd = k" by (simp add: sd_def)
    show ?thesis
    proof (cases a)
      case False
      then show ?thesis
        unfolding Let_def k_def[symmetric] s0_def[symmetric] C L
        using Li by (simp add: P startStream_finish_def)
    next
      case True
      have A: "snd (startAudioStream sd s4) =
          (if currentAudioStream (startAudioStream_begin sd s4) = Some k
           then startAudioStream_begin sd s4
           else run (StartAudioStream_acquire (length (objects s0))) (startAudioStream_begin sd s4))"
        using startAudioStream_begin_current[of sd s4]
        by (simp add: startAudioStream_parts idk obj)
      show ?thesis
        unfolding Let_def k_def[symmetric] s0_def[symmetric] C L
        using True Li by (simp add: P startStream_finish_def A)
    qed
  qed
qed

subsection \<open>Invariants under the parts\<close>

lemma same_keys:
  assumes "map fst al' = map fst al"
  shows "length al' = length al" and "fst ` set al' = fst ` set al"
proof -
  show "length al' = length al" using assms by (metis length_map)
  show "fst ` set al' = fst ` set al" using assms by (metis list.set_map)
qed

lemma servers_ok_shape:
  assumes "servers_ok s"
      and "objects s' = objects s"
      and "activeStreams s' = activeStreams s \<or> activeStreams s' = AList.delete k (activeStreams s)"
      and "map fst (servers s') = map fst (servers s)"
  shows "servers_ok s'"
proof -
  from assms(1) have D: "distinct (map fst (activeStreams s))"
    and S: "\<forall>p \<in> fst ` set (servers s). p < length (servers s)"
    and P: "\<forall>r sd. map_of (objects s) r = Some sd \<longrightarrow> sd_proxyServer sd < length (servers s)"
    by (simp_all add: servers_ok_def)
  have D': "distinct (map fst (activeStreams s'))"
    using assms(3) D by (auto simp add: distinct_delete)
  from D' S P show ?thesis
    unfolding servers_ok_def same_keys[OF assms(4)] assms(2) by simp
qed

lemma records_ok_shape:
  assumes "records_ok s"
      and "objects s' = objects s"
      and "activeStreams s' = activeStreams s \<or> activeStreams s' = AList.delete k (activeStreams s)"
  shows "records_ok s'"
  using assms(3) records_ok_frame[OF _ assms(2) assms(1)] records_ok_delete[OF _ assms(2) assms(1)]
  by blast

lemma servers_ok_grow:
  assumes "servers_ok s"
      and "objects s' = objects s" and "activeStreams s' = activeStreams s"
      and "servers s' = AList.update (length (servers s)) srv (servers s)"
  shows "servers_ok s'"
proof -
  from assms(1) have D: "distinct (map fst (activeStreams s))"
    and S: "\<forall>p \<in> fst ` set (servers s). p < length (servers s)"
    and P: "\<forall>r sd. map_of (objects s) r = Some sd \<longrightarrow> sd_proxyServer sd < length (servers s)"
    by (simp_all add: servers_ok_def)
  have fresh: "map_of (servers s) (length (servers s)) = None"
    by (rule fresh_ref[OF S])
  have keys: "map fst (servers s') = map fst (servers s) @ [length (servers s)]"
    unfolding assms(4) by (rule update_fresh_keys[OF fresh])
  have len: "length (servers s') = Suc (length (servers s))"
    using keys by (metis length_append_singleton length_map)
  have kset: "fst ` set (servers s') = insert (length (servers s)) (fst ` set (servers s))"
    by (simp add: assms(4) dom_update)
  have S': "\<forall>p \<in> fst ` set (servers s'). p < length (servers s')"
    unfolding kset len using S by (simp add: less_Suc_eq)
  have P': "\<forall>r sd. map_of (objects s') r = Some sd \<longrightarrow> sd_proxyServer sd < length (servers s')"
    unfolding len assms(2) using P by (simp add: less_Suc_eq)
  from D S' P' show ?thesis by (simp only: servers_ok_def assms(3) simp_thms)
qed

lemma servers_ok_touch:
  assumes "servers_ok s" and "map_of (objects s) r = Some sd"
      and "sd_proxyServer sd' = sd_proxyServer sd"
      and "objects s' = AList.update r sd' (objects s)" and "activeStreams s' = activeStreams s"
      and "servers s' = servers s"
  shows "servers_ok s'"
proof -
  from assms(1) have D: "distinct (map fst (activeStreams s))"
    and S: "\<forall>p \<in> fst ` set (servers s). p < length (servers s)"
    and P: "\<And>r sd. map_of (objects s) r = Some sd \<Longrightarrow> sd_proxyServer sd < length (servers s)"
    by (simp_all add: servers_ok_def)
  have P': "\<forall>x y. map_of (objects s') x = Some y \<longrightarrow> sd_proxyServer y < length (servers s')"
  proof (intro allI impI)
    fix x y assume xy: "map_of (objects s') x = Some y"
    show "sd_proxyServer y < length (servers s')"
    proof (cases "x = r")
      case True
      with xy have "y = sd'" by (simp add: assms(4) update_conv')
      then show ?thesis using P[OF assms(2)] by (simp add: assms(3,6))
    next
      case False
      with xy have "map_of (objects s) x = Some y" by (simp add: assms(4) update_conv')
      from P[OF this] show ?thesis by (simp add: assms(6))
    qed
  qed
  from D S P' show ?thesis by (simp only: servers_ok_def assms(5,6) simp_thms)
qed

lemma servers_ok_register:
  assumes "servers_ok s1"
      and "objects s' = AList.update r sd (objects s1)"
      and "activeStreams s' = AList.update k r (activeStreams s1)"
      and "map fst (servers s') = map fst (servers s1)"
      and "sd_proxyServer sd < length (servers s1)"
  shows "servers_ok s'"
proof -
  from assms(1) have D: "distinct (map fst (activeStreams s1))"
    and S: "\<forall>p \<in> fst ` set (servers s1). p < length (servers s1)"
    and P: "\<And>r sd. map_of (objects s1) r = Some sd \<Longrightarrow> sd_proxyServer sd < length (servers s1)"
    by (simp_all add: servers_ok_def)
  have D': "distinct (map fst (activeStreams s'))"
    unfolding assms(3) by (rule distinct_update[OF D])
  have S': "\<forall>p \<in> fst ` set (servers s'). p < length (servers s')"
    unfolding same_keys[OF assms(4)] by (rule S)
  have P': "\<forall>x y. map_of (objects s') x = Some y \<longrightarrow> sd_proxyServer y < length (servers s')"
  proof (intro allI impI)
    fix x y assume xy: "map_of (objects s') x = Some y"
    show "sd_proxyServer y < length (servers s')"
    proof (cases "x = r")
      case True
      with xy have "y = sd" by (simp add: assms(2) update_conv')
      then show ?thesis using assms(5) by (simp add: same_keys(1)[OF assms(4)])
    next
      case False
      with xy have "map_of (objects s1) x = Some y" by (simp add: assms(2) update_conv')
      from P[OF this] show ?thesis by (simp add: same_keys(1)[OF assms(4)])
    qed
  qed
  from D' S' P' show ?thesis by (simp only: servers_ok_def simp_thms)
qed

text \<open>Both invariants together.\<close>

lemma inv_shape:
  assumes "records_ok s \<and> servers_ok s"
      and "objects s' = objects s"
      and "activeStreams s' = activeStreams s \<or> activeStreams s' = AList.delete k (activeStreams s)"
      and "map fst (servers s') = map fst (servers s)"
  shows "records_ok s' \<and> servers_ok s'"
  using records_ok_shape[OF _ assms(2,3)] servers_ok_shape[OF _ assms(2,3,4)] assms(1)
  by blast

lemma closeServer_keys [simp]: "map fst (servers (closeServer p s)) = map fst (servers s)"
  by (simp add: closeServer_def update_present_keys split: option.splits)

lemma closeServer_object_keys [simp]:
  "map fst (servers (case map_of (objects s) r of
                       None \<Rightarrow> s | Some sd \<Rightarrow> closeServer (sd_proxyServer sd) s))
     = map fst (servers s)"
  by (simp split: option.splits)

lemma stopStream_rest_fields [simp]:
  "activeStreams (stopStream_rest k s) = AList.delete k (activeStreams s)"
  "objects (stopStream_rest k s) = objects s"
  "servers (stopStream_rest k s) = servers s"
  "audioStreams (stopStream_rest k s) = audioStreams s"
  "currentAudioStream (stopStream_rest k s) = currentAudioStream s"
  "config (stopStream_rest k s) = config s"
  "nextProxyPort (stopStream_rest k s) = nextProxyPort s"
  "events (stopStream_rest k s) = events s"
  by (simp_all add: stopStream_rest_def Let_def clearTimeout_def split: option.splits)

lemma stopStream_begin_shape:
  "objects (stopStream_begin k s) = objects s"
  "map fst (servers (stopStream_begin k s)) = map fst (servers s)"
  "activeStreams (stopStream_begin k s) = activeStreams s \<or>
   activeStreams (stopStream_begin k s) = AList.delete k (activeStreams s)"
  "config (stopStream_begin k s) = config s"
proof -
  have "objects (stopStream_begin k s) = objects s
      \<and> map fst (servers (stopStream_begin k s)) = map fst (servers s)
      \<and> (activeStreams (stopStream_begin k s) = activeStreams s \<or>
         activeStreams (stopStream_begin k s) = AList.delete k (activeStreams s))
      \<and> config (stopStream_begin k s) = config s"
  proof (cases "map_of (activeStreams s) k")
    case None
    then show ?thesis by (simp add: stopStream_begin_absent)
  next
    case (Some r)
    show ?thesis
      unfolding stopStream_begin_present[OF Some]
      by (simp split: option.splits)
  qed
  then show "objects (stopStream_begin k s) = objects s"
    "map fst (servers (stopStream_begin k s)) = map fst (servers s)"
    "activeStreams (stopStream_begin k s) = activeStreams s \<or>
     activeStreams (stopStream_begin k s) = AList.delete k (activeStreams s)"
    "config (stopStream_begin k s) = config s"
    by simp_all
qed

lemma stopStream_servers_keys [simp]:
  "map fst (servers (stopStream k s)) = map fst (servers s)"
  unfolding stopStream_parts by (simp add: stopStream_begin_shape)

lemma inv_stopStream_begin:
  "records_ok s \<and> servers_ok s \<Longrightarrow>
     records_ok (stopStream_begin k s) \<and> servers_ok (stopStream_begin k s)"
  by (rule inv_shape[of s _ k]) (simp_all add: stopStream_begin_shape)

lemma inv_stopStream_rest:
  "records_ok s \<and> servers_ok s \<Longrightarrow>
     records_ok (stopStream_rest k s) \<and> servers_ok (stopStream_rest k s)"
  by (rule inv_shape[of s _ k]) simp_all

lemma inv_stopStream:
  "records_ok s \<and> servers_ok s \<Longrightarrow> records_ok (stopStream k s) \<and> servers_ok (stopStream k s)"
  by (rule inv_shape[of s _ k]) simp_all

lemma inv_frame:
  assumes "records_ok s \<and> servers_ok s"
      and "objects s' = objects s" and "activeStreams s' = activeStreams s"
      and "servers s' = servers s"
  shows "records_ok s' \<and> servers_ok s'"
  by (rule inv_shape[where k="[]", OF assms(1,2)]) (simp_all add: assms(3,4))

lemma handleStreamError_begin_shape:
  "objects (handleStreamError_begin k cam e s) = objects s"
  "map fst (servers (handleStreamError_begin k cam e s)) = map fst (servers s)"
  "activeStreams (handleStreamError_begin k cam e s) = activeStreams s \<or>
   activeStreams (handleStreamError_begin k cam e s) = AList.delete k (activeStreams s)"
proof -
  have "objects (handleStreamError_begin k cam e s) = objects s
      \<and> map fst (servers (handleStreamError_begin k cam e s)) = map fst (servers s)
      \<and> (activeStreams (handleStreamError_begin k cam e s) = activeStreams s \<or>
         activeStreams (handleStreamError_begin k cam e s) = AList.delete k (activeStreams s))"
  proof (cases "attemptsOf (connectionAttempts s) k + 1 < maxRetries (config s)")
    case True
    show ?thesis
      unfolding handleStreamError_begin_retry[OF True]
      by (simp add: handleStreamError_retry(2)[OF True] handleStreamError_retry_fields[OF True])
  next
    case False
    then have le: "maxRetries (config s) \<le> attemptsOf (connectionAttempts s) k + 1" by simp
    show ?thesis
      unfolding handleStreamError_begin_failed[OF le]
      using stopStream_begin_shape(3)[of k "emit (StreamFailed k)
       (emit (StreamError k e (attemptsOf (connectionAttempts s) k + 1))
          (s\<lparr> connectionAttempts :=
                AList.update k (attemptsOf (connectionAttempts s) k + 1) (connectionAttempts s) \<rparr>))"]
      by (simp add: stopStream_begin_shape(1,2))
  qed
  then show "objects (handleStreamError_begin k cam e s) = objects s"
    "map fst (servers (handleStreamError_begin k cam e s)) = map fst (servers s)"
    "activeStreams (handleStreamError_begin k cam e s) = activeStreams s \<or>
     activeStreams (handleStreamError_begin k cam e s) = AList.delete k (activeStreams s)"
    by simp_all
qed

lemma handleStreamError_shape:
  "map fst (servers (handleStreamError k cam e s)) = map fst (servers s)"
  "activeStreams (handleStreamError k cam e s) = activeStreams s \<or>
   activeStreams (handleStreamError k cam e s) = AList.delete k (activeStreams s)"
proof -
  have "map fst (servers (handleStreamError k cam e s)) = map fst (servers s)
      \<and> (activeStreams (handleStreamError k cam e s) = activeStreams s \<or>
         activeStreams (handleStreamError k cam e s) = AList.delete k (activeStreams s))"
  proof (cases "attemptsOf (connectionAttempts s) k + 1 < maxRetries (config s)")
    case True
    show ?thesis
      by (simp add: handleStreamError_retry(2)[OF True] handleStreamError_retry_fields[OF True])
  next
    case False
    then have le: "maxRetries (config s) \<le> attemptsOf (connectionAttempts s) k + 1" by simp
    show ?thesis
      unfolding handleStreamError_failed_eq[OF le] by simp
  qed
  then show "map fst (servers (handleStreamError k cam e s)) = map fst (servers s)"
    "activeStreams (handleStreamError k cam e s) = activeStreams s \<or>
     activeStreams (handleStreamError k cam e s) = AList.delete k (activeStreams s)"
    by simp_all
qed

lemma inv_handleStreamError_begin:
  "records_ok s \<and> servers_ok s \<Longrightarrow>
     records_ok (handleStreamError_begin k cam e s) \<and> servers_ok (handleStreamError_begin k cam e s)"
  by (rule inv_shape[of s _ k]) (simp_all add: handleStreamError_begin_shape)

lemma inv_handleStreamError:
  "records_ok s \<and> servers_ok s \<Longrightarrow>
     records_ok (handleStreamError k cam e s) \<and> servers_ok (handleStreamError k cam e s)"
  by (rule inv_shape[of s _ k]) (simp_all add: handleStreamError_shape)

lemma inv_startStream_check:
  "records_ok s \<and> servers_ok s \<Longrightarrow>
     records_ok (snd (startStream_check cam q s)) \<and> servers_ok (snd (startStream_check cam q s))"
  by (simp add: startStream_check_def Let_def inv_handleStreamError_begin)

lemma inv_createStreamProxy_begin:
  assumes "records_ok s \<and> servers_ok s"
  shows "records_ok (snd (createStreamProxy_begin s)) \<and> servers_ok (snd (createStreamProxy_begin s))"
proof -
  have "records_ok (snd (createStreamProxy_begin s))"
    by (rule records_ok_frame[of _ s]) (simp_all add: createStreamProxy_begin_def Let_def assms)
  moreover have "servers_ok (snd (createStreamProxy_begin s))"
    by (rule servers_ok_grow[of s _ "\<lparr> srv_port = nextProxyPort s, srv_listening = False \<rparr>"])
       (simp_all add: createStreamProxy_begin_def Let_def assms)
  ultimately show ?thesis by simp
qed

lemma inv_createStreamProxy:
  assumes "records_ok s \<and> servers_ok s"
  shows "records_ok (snd (createStreamProxy l s)) \<and> servers_ok (snd (createStreamProxy l s))"
proof -
  have "records_ok (snd (createStreamProxy l s))"
    by (rule records_ok_frame[of _ s]) (simp_all add: createStreamProxy_def Let_def assms)
  moreover have "servers_ok (snd (createStreamProxy l s))"
    by (rule servers_ok_grow[of s _ "\<lparr> srv_port = nextProxyPort s, srv_listening = l \<rparr>"])
       (simp_all add: createStreamProxy_def Let_def assms)
  ultimately show ?thesis by simp
qed

lemma startAudioStream_acquire_fields [simp]:
  "objects (startAudioStream_acquire sd s) = objects s"
  "activeStreams (startAudioStream_acquire sd s) = activeStreams s"
  "servers (startAudioStream_acquire sd s) = servers s"
  "events (startAudioStream_acquire sd s) = events s"
  "config (startAudioStream_acquire sd s) = config s"
  "currentAudioStream (startAudioStream_acquire sd s) = Some (sd_id sd)"
  "audioStreams (startAudioStream_acquire sd s) =
     AList.update (sd_id sd) (''/audio_demo/'' @ sd_id sd, True) (audioStreams s)"
  by (simp_all add: startAudioStream_acquire_def Let_def)

lemma startStream_finish_fields [simp]:
  "objects (startStream_finish r k cam s) = objects s"
  "activeStreams (startStream_finish r k cam s) = activeStreams s"
  "servers (startStream_finish r k cam s) = servers s"
  by (simp_all add: startStream_finish_def)

lemma inv_register:
  assumes "records_ok s1 \<and> servers_ok s1"
      and "objects s' = AList.update (length (objects s1)) sd (objects s1)"
      and "activeStreams s' = AList.update (sd_id sd) (length (objects s1)) (activeStreams s1)"
      and "map fst (servers s') = map fst (servers s1)"
      and "sd_id sd \<noteq> []"
      and "sd_proxyServer sd < length (servers s1)"
  shows "records_ok s' \<and> servers_ok s'"
  using records_ok_register[OF _ assms(2,3,5)] servers_ok_register[OF _ assms(2,3,4,6)] assms(1)
  by blast

lemma inv_startStream_listened:
  assumes "records_ok s \<and> servers_ok s" and "map_of (servers s) p = Some srv"
  shows "records_ok (snd (startStream_listened p cam q a info l s)) \<and>
         servers_ok (snd (startStream_listened p cam q a info l s))"
proof (cases l)
  case False
  then show ?thesis
    by (simp add: startStream_listened_def Let_def inv_handleStreamError_begin[OF assms(1)])
next
  case True
  define k where "k = streamKey (cam_id cam) q"
  define s2 where "s2 = s\<lparr> servers := AList.update p (srv\<lparr> srv_listening := True \<rparr>) (servers s) \<rparr>"
  define sd where "sd = \<lparr> sd_id = k, sd_camera = cam, sd_quality = q,
                    sd_streamUrl = selectStreamUrl cam q, sd_streamInfo = info,
                    sd_proxyServer = p,
                    sd_proxyPort = (case map_of (servers s2) p of
                                      None \<Rightarrow> 0 | Some srv \<Rightarrow> srv_port srv),
                    sd_status = Connecting, sd_includeAudio = a,
                    bytesTransferred = 0, clientsConnected = 0 \<rparr>"
  define s4 where "s4 = s2\<lparr> objects := AList.update (length (objects s2)) sd (objects s2),
                      activeStreams := AList.update k (length (objects s2)) (activeStreams s2),
                      connectionAttempts := AList.update k 0 (connectionAttempts s2) \<rparr>"
  have eq: "snd (startStream_listened p cam q a info l s) =
      (if a then startAudioStream_begin sd s4 else startStream_finish (length (objects s2)) k cam s4)"
    unfolding startStream_listened_def Let_def k_def[symmetric]
    using True assms(2) by (simp add: s2_def sd_def s4_def)
  have present: "map_of (servers s) p \<noteq> None" using assms(2) by simp
  have keys2: "map fst (servers s2) = map fst (servers s)"
    by (simp add: s2_def update_present_keys[OF present])
  have i2: "records_ok s2 \<and> servers_ok s2"
    by (rule inv_shape[where k=k, OF assms(1)])
       (simp_all add: s2_def update_present_keys[OF present])
  have "p \<in> fst ` set (servers s2)"
    unfolding same_keys(2)[OF keys2] using assms(2) by (metis map_of_eq_None_iff option.distinct(1))
  moreover have "\<forall>p \<in> fst ` set (servers s2). p < length (servers s2)"
    using i2 unfolding servers_ok_def by blast
  ultimately have plt: "p < length (servers s2)" by blast
  have i4: "records_ok s4 \<and> servers_ok s4"
    by (rule inv_register[OF i2, of _ sd]) (simp_all add: s4_def sd_def k_def plt)
  have f1: "records_ok (startAudioStream_begin sd s4) \<and> servers_ok (startAudioStream_begin sd s4)"
    by (rule inv_frame[OF i4]) simp_all
  have f2: "records_ok (startStream_finish (length (objects s2)) k cam s4) \<and>
            servers_ok (startStream_finish (length (objects s2)) k cam s4)"
    by (rule inv_frame[OF i4]) simp_all
  show ?thesis
    unfolding eq using f1 f2 by simp
qed

lemma inv_run:
  assumes "records_ok s \<and> servers_ok s"
  shows "records_ok (run p s) \<and> servers_ok (run p s)"
proof (cases p)
  case (StopStream_begin k)
  then show ?thesis using inv_stopStream_begin[OF assms] by simp
next
  case (StopStream_rest k)
  then show ?thesis using inv_stopStream_rest[OF assms] by simp
next
  case (StartStream_check cam q)
  then show ?thesis using inv_startStream_check[OF assms] by simp
next
  case CreateStreamProxy_begin
  then show ?thesis using inv_createStreamProxy_begin[OF assms] by simp
next
  case (StartStream_listened p' cam q a info l)
  then show ?thesis
    using inv_startStream_listened[OF assms] assms by (simp split: option.splits)
next
  case (StartStream_finish r k cam)
  then show ?thesis using inv_frame[OF assms, of "startStream_finish r k cam s"] by simp
next
  case (StartAudioStream_acquire r)
  have "records_ok (startAudioStream_acquire sd s) \<and> servers_ok (startAudioStream_acquire sd s)"
    for sd
    by (rule inv_frame[OF assms]) simp_all
  with StartAudioStream_acquire assms show ?thesis by (simp split: option.splits)
next
  case (ToggleAudio_begin c q)
  have a: "records_ok (stopAudioStream k s) \<and> servers_ok (stopAudioStream k s)" for k
    by (rule inv_frame[OF assms]) simp_all
  have b: "records_ok (startAudioStream_begin sd s) \<and> servers_ok (startAudioStream_begin sd s)"
    for sd
    by (rule inv_frame[OF assms]) simp_all
  from ToggleAudio_begin assms a b show ?thesis
    by (simp add: toggleAudio_begin_def Let_def split: option.splits)
next
  case (ToggleAudio_stopped k)
  then show ?thesis using inv_frame[OF assms, of "emit (AudioStopped k) s"] by simp
next
  case (ToggleAudio_started k)
  then show ?thesis using inv_frame[OF assms, of "emit (AudioStarted k) s"] by simp
next
  case StopAllStreams_begin
  have "records_ok (fold stopStream_begin ks s) \<and> servers_ok (fold stopStream_begin ks s)" for ks
    using assms by (induction ks arbitrary: s) (simp_all add: inv_stopStream_begin)
  with StopAllStreams_begin show ?thesis by (simp add: stopAllStreams_begin_def)
next
  case StopAllStreams_reset
  then show ?thesis
    using inv_frame[OF assms, of "stopAllStreams_reset s"] by (simp add: stopAllStreams_reset_def)
qed

lemma inv2_startStream:
  assumes "records_ok s \<and> servers_ok s"
  shows "records_ok (snd (startStream cam q a info l s)) \<and>
         servers_ok (snd (startStream cam q a info l s))"
proof -
  define k where "k = streamKey (cam_id cam) q"
  define s1 where "s1 = (if map_of (activeStreams s) k \<noteq> None then stopStream k s else s)"
  have i1: "records_ok s1 \<and> servers_ok s1"
    using assms inv_stopStream[OF assms, of k] by (simp add: s1_def)
  consider (full) "maxConnections (config s) \<le> length (activeStreams s1)"
    | (nolisten) "\<not> maxConnections (config s) \<le> length (activeStreams s1)" "\<not> l"
    | (ok) "\<not> maxConnections (config s) \<le> length (activeStreams s1)" "l"
    by blast
  then show ?thesis
  proof cases
    case full
    have "snd (startStream cam q a info l s) =
        handleStreamError k cam (CapacityExceeded (maxConnections (config s))) s1"
      unfolding startStream_unfold Let_def k_def[symmetric] s1_def[symmetric]
      using full by simp
    then show ?thesis using inv_handleStreamError[OF i1] by simp
  next
    case nolisten
    have eq: "snd (startStream cam q a info l s) =
        handleStreamError k cam ProxyServerError (snd (createStreamProxy False s1))"
      unfolding startStream_unfold Let_def k_def[symmetric] s1_def[symmetric]
      using nolisten by simp
    show ?thesis
      unfolding eq by (rule inv_handleStreamError[OF inv_createStreamProxy[OF i1]])
  next
    case ok
    define sd where "sd = \<lparr> sd_id = k, sd_camera = cam, sd_quality = q,
                          sd_streamUrl = selectStreamUrl cam q, sd_streamInfo = info,
                          sd_proxyServer = length (servers s1),
                          sd_proxyPort = nextProxyPort s1,
                          sd_status = Connecting, sd_includeAudio = a,
                          bytesTransferred = 0, clientsConnected = 0 \<rparr>"
    define s2 where "s2 = snd (createStreamProxy True s1)"
    define s4 where "s4 = s2 \<lparr> objects := AList.update (length (objects s1)) sd (objects s1),
                            activeStreams := AList.update k (length (objects s1)) (activeStreams s1),
                            connectionAttempts := AList.update k 0 (connectionAttempts s1) \<rparr>"
    define s5 where "s5 = (if a then snd (startAudioStream sd s4) else s4)"
    have eq: "snd (startStream cam q a info l s) =
                snd (setTimeout (ConnectedTimer (length (objects s1)) k cam) s5)"
      unfolding startStream_unfold Let_def k_def[symmetric] s1_def[symmetric] sd_def s4_def s5_def
        s2_def
      using ok by simp
    have i2: "records_ok s2 \<and> servers_ok s2"
      unfolding s2_def by (rule inv_createStreamProxy[OF i1])
    have S1: "\<forall>p \<in> fst ` set (servers s1). p < length (servers s1)"
      using i1 unfolding servers_ok_def by blast
    have keys: "map fst (servers s2) = map fst (servers s1) @ [length (servers s1)]"
      unfolding s2_def createStreamProxy_def Let_def
      by (simp add: update_fresh_keys[OF fresh_ref[OF S1]])
    have len: "length (servers s2) = Suc (length (servers s1))"
      using keys by (metis length_append_singleton length_map)
    have o2: "objects s2 = objects s1" "activeStreams s2 = activeStreams s1"
      by (simp_all add: s2_def createStreamProxy_fields)
    have i4: "records_ok s4 \<and> servers_ok s4"
      by (rule inv_register[OF i2, of _ sd]) (simp_all add: s4_def sd_def k_def o2 len)
    have i5: "records_ok s5 \<and> servers_ok s5"
    proof (cases a)
      case True
      have "records_ok (snd (startAudioStream sd s4)) \<and> servers_ok (snd (startAudioStream sd s4))"
        by (rule inv_frame[OF i4]) simp_all
      with True show ?thesis by (simp add: s5_def)
    next
      case False
      with i4 show ?thesis by (simp add: s5_def)
    qed
    show ?thesis
      unfolding eq by (rule inv_frame[OF i5]) simp_all
  qed
qed

lemma inv_touch:
  assumes "records_ok s \<and> servers_ok s" and "map_of (objects s) r = Some sd"
      and "sd_id sd' = sd_id sd" and "sd_proxyServer sd' = sd_proxyServer sd"
      and "objects s' = AList.update r sd' (objects s)" and "activeStreams s' = activeStreams s"
      and "servers s' = servers s"
  shows "records_ok s' \<and> servers_ok s'"
  using records_ok_touch[OF _ assms(2,3,5,6)] servers_ok_touch[OF _ assms(2,4,5,6,7)] assms(1)
  by blast

lemma inv_bumpClients:
  assumes "records_ok s \<and> servers_ok s"
  shows "records_ok (bumpClients r d s) \<and> servers_ok (bumpClients r d s)"
proof (cases "map_of (objects s) r")
  case None
  with assms show ?thesis by (simp add: bumpClients_def)
next
  case (Some sd)
  show ?thesis
    by (rule inv_touch[OF assms Some, of "sd\<lparr> clientsConnected := clientsConnected sd + d \<rparr>"])
       (simp_all add: bumpClients_def Some)
qed

lemma inv_connectedCallback:
  assumes "records_ok s \<and> servers_ok s"
  shows "records_ok (connectedCallback r k cam s) \<and> servers_ok (connectedCallback r k cam s)"
proof (cases "map_of (objects s) r")
  case None
  show ?thesis
    by (rule inv_frame[OF assms]) (simp_all add: connectedCallback_def None emit_def)
next
  case (Some sd)
  show ?thesis
    by (rule inv_touch[OF assms Some, of "sd\<lparr> sd_status := Streaming \<rparr>"])
       (simp_all add: connectedCallback_def Some emit_def)
qed

lemma inv2_fireTimer:
  assumes "records_ok s \<and> servers_ok s"
  shows "records_ok (snd (fireTimer t s)) \<and> servers_ok (snd (fireTimer t s))"
proof -
  let ?s1 = "s\<lparr> timers := AList.delete t (timers s) \<rparr>"
  have i1: "records_ok ?s1 \<and> servers_ok ?s1" by (rule inv_frame[OF assms]) simp_all
  show ?thesis
    unfolding fireTimer_unfold
    using assms i1 inv_connectedCallback[OF i1]
    by (simp split: option.splits timerAction.splits)
qed

lemma inv2_proxyConnection:
  assumes "records_ok s \<and> servers_ok s"
  shows "records_ok (proxyConnection k s) \<and> servers_ok (proxyConnection k s)"
proof -
  let ?s0 = "s\<lparr> nextSocket := nextSocket s + 1 \<rparr>"
  have i0: "records_ok ?s0 \<and> servers_ok ?s0" by (rule inv_frame[OF assms]) simp_all
  show ?thesis
  proof (cases "map_of (activeStreams s) k")
    case None
    then show ?thesis using i0 by (simp add: proxyConnection_def Let_def)
  next
    case (Some r)
    have eq: "proxyConnection k s =
                (bumpClients r 1 ?s0)\<lparr> sockets := AList.update (nextSocket s) r (sockets s) \<rparr>"
      using Some by (simp add: proxyConnection_def Let_def)
    show ?thesis
      unfolding eq by (rule inv_frame[OF inv_bumpClients[OF i0, of r 1]]) simp_all
  qed
qed

lemma inv2_socketClose:
  assumes "records_ok s \<and> servers_ok s"
  shows "records_ok (socketClose k s) \<and> servers_ok (socketClose k s)"
proof (cases "map_of (sockets s) k")
  case None
  with assms show ?thesis by (simp add: socketClose_def)
next
  case (Some r)
  have eq: "socketClose k s = (bumpClients r (- 1) s)\<lparr> sockets := AList.delete k (sockets s) \<rparr>"
    using Some by (simp add: socketClose_def)
  show ?thesis
    unfolding eq by (rule inv_frame[OF inv_bumpClients[OF assms, of r "- 1"]]) simp_all
qed

lemma toggleAudio_frame [simp]:
  "objects (snd (toggleAudio c q s)) = objects s"
  "activeStreams (snd (toggleAudio c q s)) = activeStreams s"
  "servers (snd (toggleAudio c q s)) = servers s"
  "config (snd (toggleAudio c q s)) = config s"
  by (simp_all add: toggleAudio_unfold split: option.splits)

lemma inv2_stopAllStreams:
  assumes "records_ok s \<and> servers_ok s"
  shows "records_ok (stopAllStreams s) \<and> servers_ok (stopAllStreams s)"
proof -
  have f: "records_ok (fold stopStream ks s) \<and> servers_ok (fold stopStream ks s)" for ks
    using assms by (induction ks arbitrary: s) (simp_all add: inv_stopStream)
  show ?thesis
    unfolding stopAllStreams_def by (rule inv_frame[OF f]) simp_all
qed

lemma inv_exec:
  assumes "records_ok s \<and> servers_ok s"
  shows "records_ok (exec a s) \<and> servers_ok (exec a s)"
proof (cases a)
  case (StartStream cam q ia info l)
  then show ?thesis using inv2_startStream[OF assms] by simp
next
  case (StopStream k)
  then show ?thesis using inv_stopStream[OF assms] by simp
next
  case StopAllStreams
  then show ?thesis using inv2_stopAllStreams[OF assms] by simp
next
  case (ToggleAudio c q)
  then show ?thesis using inv_frame[OF assms, of "snd (toggleAudio c q s)"] by simp
next
  case (FireTimer t)
  then show ?thesis using inv2_fireTimer[OF assms] by simp
next
  case (ProxyConnection k)
  then show ?thesis using inv2_proxyConnection[OF assms] by simp
next
  case (SocketClose k)
  then show ?thesis using inv2_socketClose[OF assms] by simp
qed

lemma reachable_inv: "reachable s \<Longrightarrow> records_ok s \<and> servers_ok s"
proof (induction rule: reachable.induct)
  case (reachable_init cfg)
  show ?case by (simp add: records_ok_def servers_ok_def manager_init_def)
next
  case (reachable_step s a)
  then show ?case by (simp add: inv_exec)
next
  case (reachable_part s p)
  then show ?case by (simp add: inv_run)
qed

text \<open>When every call runs to its return before the next call or callback begins, the
  audio table has an entry exactly for the current audio stream.\<close>

lemma audio_ok_init: "audio_ok (manager_init cfg)"
  by (simp add: audio_ok_def hasAudio_def manager_init_def)

lemma audio_ok_exec:
  assumes "records_ok s" and "audio_ok s"
  shows "audio_ok (exec a s)"
proof (cases a)
  case (StartStream cam q ia info l)
  then show ?thesis using inv_startStream[OF assms] by simp
next
  case (StopStream k)
  then show ?thesis using audio_ok_stopStream[OF assms(2)] by simp
next
  case StopAllStreams
  then show ?thesis using inv_stopAllStreams[OF assms] by simp
next
  case (ToggleAudio c q)
  then show ?thesis using inv_toggleAudio[OF assms] by simp
next
  case (FireTimer t)
  then show ?thesis using inv_fireTimer[OF assms] by simp
next
  case (ProxyConnection k)
  then show ?thesis using inv_proxyConnection[OF assms] by simp
next
  case (SocketClose k)
  then show ?thesis using inv_socketClose[OF assms] by simp
qed

subsection \<open>The exclusive audio channel\<close>

lemma two_streams_value:
  "two_streams =
     \<lparr> activeStreams = [(''1_low'', 0), (''2_low'', 1)],
       objects =
         [(0, \<lparr> sd_id = ''1_low'', sd_camera = camA, sd_quality = ''low'',
                 sd_streamUrl = Some ''rtsp://10.0.0.1/live'', sd_streamInfo = MJPEG,
                 sd_proxyServer = 0, sd_proxyPort = 8080, sd_status = Connecting,
                 sd_includeAudio = False, bytesTransferred = 0, clientsConnected = 0 \<rparr>),
          (1, \<lparr> sd_id = ''2_low'', sd_camera = camB, sd_quality = ''low'',
                 sd_streamUrl = Some ''rtsp://10.0.0.2/live'', sd_streamInfo = MJPEG,
                 sd_proxyServer = 1, sd_proxyPort = 8081, sd_status = Connecting,
                 sd_includeAudio = False, bytesTransferred = 0, clientsConnected = 0 \<rparr>)],
       servers = [(0, \<lparr> srv_port = 8080, srv_listening = True \<rparr>),
                  (1, \<lparr> srv_port = 8081, srv_listening = True \<rparr>)],
       connectionAttempts = [(''1_low'', 0), (''2_low'', 0)], reconnectTimers = [],
       audioStreams = [], currentAudioStream = None,
       config = default_config\<lparr> maxConnections := 2 \<rparr>, nextProxyPort = 8082,
       timers = [(0, ConnectedTimer 0 ''1_low'' camA), (1, ConnectedTimer 1 ''2_low'' camB)],
       nextTimer = 2, sockets = [], nextSocket = 0, events = [] \<rparr>"
  by (simp add: two_streams_def am_eval camA_def camB_def)

lemma audio_on_A_value:
  "audio_on_A = two_streams
     \<lparr> audioStreams := [(''1_low'', ''/audio_demo/1_low'', True)],
       currentAudioStream := Some ''1_low'', events := [AudioStarted ''1_low''] \<rparr>"
  unfolding audio_on_A_def two_streams_value
  by (simp add: toggleAudio_unfold streamKey_def startAudioStream_def emit_def Let_def)

lemma reachable_two_streams: "reachable two_streams"
  unfolding two_streams_def by (intro reachable.intros)

lemma reachable_audio_on_A: "reachable audio_on_A"
  unfolding audio_on_A_def by (intro reachable.intros reachable_two_streams)

lemma startAudioStream_handoff:
  assumes "currentAudioStream s = Some A" and "A \<noteq> []" and "A \<noteq> sd_id sd"
  shows "startAudioStream sd s = startAudioStream sd (stopAudioStream A s)"
  using assms by (simp add: startAudioStream_def Let_def)

subsection \<open>Toggling audio\<close>

lemma toggleAudio_release:
  assumes "map_of (activeStreams s) (streamKey c q) = Some r" and "map_of (objects s) r = Some sd"
      and "currentAudioStream s = Some (streamKey c q)"
  shows "toggleAudio_with start c q s =
           (Inr False, emit (AudioStopped (streamKey c q)) (stopAudioStream (streamKey c q) s))"
  using assms by (simp add: toggleAudio_with_def Let_def)

lemma toggleAudio_acquire:
  assumes "map_of (activeStreams s) (streamKey c q) = Some r" and "map_of (objects s) r = Some sd"
      and "currentAudioStream s \<noteq> Some (streamKey c q)"
  shows "toggleAudio c q s =
           (Inr True, emit (AudioStarted (streamKey c q)) (snd (startAudioStream sd s)))"
  using assms by (simp add: toggleAudio_unfold)

lemma toggleAudio_caught:
  assumes "map_of (activeStreams s) (streamKey c q) = Some r" and "map_of (objects s) r = Some sd"
      and "currentAudioStream s \<noteq> Some (streamKey c q)" and "fst (start sd s) = Inl e"
  shows "toggleAudio_with start c q s =
           (Inr False, emit (AudioError (streamKey c q) e) (snd (start sd s)))"
  using assms
  by (cases "start sd s") (simp add: toggleAudio_with_def Let_def)

lemma audio_on_A_fields:
  "map_of (activeStreams audio_on_A) ''1_low'' = Some 0"
  "map_of (activeStreams audio_on_A) ''2_low'' = Some 1"
  "map_of (objects audio_on_A) 1 = Some streamB"
  "currentAudioStream audio_on_A = Some ''1_low''"
  "events audio_on_A = [AudioStarted ''1_low'']"
  "audioStreams audio_on_A = [(''1_low'', ''/audio_demo/1_low'', True)]"
  unfolding audio_on_A_value two_streams_value streamB_def by simp_all






text \<open>
  C6 (amended). In a reachable state with records for two different streams \<open>A\<close> and
  \<open>B\<close>, \<^verbatim>\<open>toggleAudio\<close> on \<open>A\<close> and then on \<open>B\<close> leaves \<open>A\<close> without audio and \<open>B\<close>
  with audio, and the second call returns \<^verbatim>\<open>true\<close>. The events emitted are
  \<^verbatim>\<open>audioStopped(A)\<close>, \<^verbatim>\<open>audioStarted(B)\<close> when \<open>A\<close> held the audio before the first
  call, and \<^verbatim>\<open>audioStarted(A)\<close>, \<^verbatim>\<open>audioStarted(B)\<close> otherwise: the hand-over from
  \<open>A\<close> to \<open>B\<close> inside \<^verbatim>\<open>startAudioStream\<close> emits no event for \<open>A\<close>.
\<close>

theorem toggleAudio_A_then_B:
  assumes "reachable s"
      and "map_of (activeStreams s) (streamKey ca qa) \<noteq> None"
      and "map_of (activeStreams s) (streamKey cb qb) \<noteq> None"
      and "streamKey ca qa \<noteq> streamKey cb qb"
  shows "fst (toggleAudio cb qb (snd (toggleAudio ca qa s))) = Inr True
       \<and> \<not> hasAudio (snd (toggleAudio cb qb (snd (toggleAudio ca qa s)))) (streamKey ca qa)
       \<and> hasAudio (snd (toggleAudio cb qb (snd (toggleAudio ca qa s)))) (streamKey cb qb)
       \<and> events (snd (toggleAudio cb qb (snd (toggleAudio ca qa s)))) =
           events s @ (if currentAudioStream s = Some (streamKey ca qa)
                       then [AudioStopped (streamKey ca qa), AudioStarted (streamKey cb qb)]
                       else [AudioStarted (streamKey ca qa), AudioStarted (streamKey cb qb)])"
proof -
  let ?A = "streamKey ca qa" and ?B = "streamKey cb qb"
  let ?s1 = "snd (toggleAudio ca qa s)"
  let ?s2 = "snd (toggleAudio cb qb ?s1)"
  from reachable_inv[OF assms(1)] have rec: "records_ok s" by simp
  from assms(2) rec obtain ra sdA where A: "map_of (activeStreams s) ?A = Some ra"
      "map_of (objects s) ra = Some sdA" "sd_id sdA = ?A"
    unfolding records_ok_def by fastforce
  from assms(3) rec obtain rb sdB where B: "map_of (activeStreams s) ?B = Some rb"
      "map_of (objects s) rb = Some sdB" "sd_id sdB = ?B"
    unfolding records_ok_def by fastforce
  have s1: "activeStreams ?s1 = activeStreams s \<and> objects ?s1 = objects s
          \<and> currentAudioStream ?s1 \<noteq> Some ?B
          \<and> events ?s1 = events s @ (if currentAudioStream s = Some ?A
                                       then [AudioStopped ?A] else [AudioStarted ?A])
          \<and> (currentAudioStream ?s1 = None \<and> map_of (audioStreams ?s1) ?A = None
             \<or> currentAudioStream ?s1 = Some ?A)"
  proof (cases "currentAudioStream s = Some ?A")
    case True
    show ?thesis
      using True
      by (simp add: toggleAudio_def toggleAudio_release[OF A(1,2) True] map_of_delete_same)
  next
    case False
    show ?thesis
      using False assms(4)
      by (simp add: toggleAudio_acquire[OF A(1,2) False] startAudioStream_audio A(3))
  qed
  then have B1: "map_of (activeStreams ?s1) ?B = Some rb" "map_of (objects ?s1) rb = Some sdB"
    and nB: "currentAudioStream ?s1 \<noteq> Some ?B"
    using B by simp_all
  note step2 = toggleAudio_acquire[OF B1 nB]
  have res: "fst (toggleAudio cb qb ?s1) = Inr True" by (simp add: step2)
  have cur2: "currentAudioStream ?s2 = Some ?B"
    by (simp add: step2 startAudioStream_audio B(3))
  have ev2: "events ?s2 = events ?s1 @ [AudioStarted ?B]"
    by (simp add: step2)
  have au2: "audioStreams ?s2 =
      AList.update ?B (''/audio_demo/'' @ ?B, True)
        (case currentAudioStream ?s1 of
           None \<Rightarrow> audioStreams ?s1
         | Some cur \<Rightarrow> if cur \<noteq> [] \<and> cur \<noteq> ?B
                       then AList.delete cur (audioStreams ?s1) else audioStreams ?s1)"
    unfolding step2 by (simp only: snd_conv emit_fields startAudioStream_audio B(3))
  from s1 have "currentAudioStream ?s1 = None \<and> map_of (audioStreams ?s1) ?A = None
             \<or> currentAudioStream ?s1 = Some ?A"
    by blast
  then have "map_of (audioStreams ?s2) ?A = None"
    unfolding au2 using assms(4) by (auto simp add: update_conv' map_of_delete_same)
  then have hA: "\<not> hasAudio ?s2 ?A" by (simp add: hasAudio_def)
  have hB: "hasAudio ?s2 ?B" unfolding hasAudio_def au2 by (simp add: update_conv')
  from s1 ev2 have ev: "events ?s2 = events s @ (if currentAudioStream s = Some ?A
           then [AudioStopped ?A, AudioStarted ?B] else [AudioStarted ?A, AudioStarted ?B])"
    by simp
  from res hA hB ev show ?thesis by (intro conjI)
qed

text \<open>C6 as stated fails: with no audio held, toggling the first and then the second
  camera emits two \<^verbatim>\<open>audioStarted\<close> events and no \<^verbatim>\<open>audioStopped\<close> event for the
  first camera.\<close>

theorem handoff_emits_no_audioStopped:
  "currentAudioStream two_streams = None \<and> events two_streams = []
   \<and> events (snd (toggleAudio ''2'' ''low'' (snd (toggleAudio ''1'' ''low'' two_streams))))
       = [AudioStarted ''1_low'', AudioStarted ''2_low'']
   \<and> AudioStopped ''1_low''
       \<notin> set (events (snd (toggleAudio ''2'' ''low'' (snd (toggleAudio ''1'' ''low'' two_streams)))))
   \<and> \<not> hasAudio (snd (toggleAudio ''2'' ''low'' (snd (toggleAudio ''1'' ''low'' two_streams))))
         ''1_low''
   \<and> hasAudio (snd (toggleAudio ''2'' ''low'' (snd (toggleAudio ''1'' ''low'' two_streams))))
         ''2_low''"
proof -
  have s1: "snd (toggleAudio ''1'' ''low'' two_streams) = audio_on_A"
    by (simp add: audio_on_A_def)
  have s2: "snd (toggleAudio ''2'' ''low'' audio_on_A) = audio_on_A
     \<lparr> audioStreams := [(''2_low'', ''/audio_demo/2_low'', True)],
       currentAudioStream := Some ''2_low'',
       events := [AudioStarted ''1_low'', AudioStarted ''2_low''] \<rparr>"
    unfolding audio_on_A_value two_streams_value
    by (simp add: toggleAudio_unfold streamKey_def startAudioStream_def stopAudioStream_def
          emit_def Let_def)
  show ?thesis
    unfolding s1 s2 unfolding two_streams_value by (simp add: hasAudio_def)
qed

theorem toggleAudio_A_then_B_witness:
  "reachable two_streams
   \<and> map_of (activeStreams two_streams) (streamKey ''1'' ''low'') \<noteq> None
   \<and> map_of (activeStreams two_streams) (streamKey ''2'' ''low'') \<noteq> None
   \<and> streamKey ''1'' ''low'' \<noteq> streamKey ''2'' ''low''
   \<and> fst (toggleAudio ''2'' ''low'' (snd (toggleAudio ''1'' ''low'' two_streams))) = Inr True
   \<and> hasAudio (snd (toggleAudio ''2'' ''low'' (snd (toggleAudio ''1'' ''low'' two_streams))))
        (streamKey ''2'' ''low'')"
proof -
  have h: "map_of (activeStreams two_streams) (streamKey ''1'' ''low'') \<noteq> None"
    "map_of (activeStreams two_streams) (streamKey ''2'' ''low'') \<noteq> None"
    "streamKey ''1'' ''low'' \<noteq> streamKey ''2'' ''low''"
    by (simp_all add: two_streams_fields streamKey_def)
  from toggleAudio_A_then_B[OF reachable_two_streams h] h reachable_two_streams
  show ?thesis by simp
qed

subsection \<open>Overlapping calls of toggleAudio\<close>

lemma toggle_B_suspended_value:
  "toggle_B_suspended = audio_on_A\<lparr> audioStreams := [], currentAudioStream := None \<rparr>"
  unfolding toggle_B_suspended_def audio_on_A_value two_streams_value
  by (simp add: toggleAudio_begin_def streamKey_def startAudioStream_begin_def
        stopAudioStream_def Let_def)

lemma toggle_B_suspended_result:
  "fst (toggleAudio_begin ''2'' ''low'' audio_on_A) = Inr True"
  unfolding audio_on_A_value two_streams_value
  by (simp add: toggleAudio_begin_def streamKey_def Let_def)

lemma toggle_A_entered_value: "toggle_A_entered = audio_on_A"
  unfolding toggle_A_entered_def toggle_B_suspended_value
  unfolding audio_on_A_value two_streams_value
  by (simp add: toggleAudio_begin_def streamKey_def startAudioStream_begin_def
        startAudioStream_acquire_def Let_def)

lemma toggle_A_entered_result:
  "fst (toggleAudio_begin ''1'' ''low'' toggle_B_suspended) = Inr True"
  unfolding toggle_B_suspended_value
  unfolding audio_on_A_value two_streams_value
  by (simp add: toggleAudio_begin_def streamKey_def Let_def)

lemma overlapping_toggles_value:
  "overlapping_toggles = audio_on_A
     \<lparr> audioStreams := [(''1_low'', ''/audio_demo/1_low'', True),
                        (''2_low'', ''/audio_demo/2_low'', True)],
       currentAudioStream := Some ''2_low'',
       events := [AudioStarted ''1_low'', AudioStarted ''1_low'', AudioStarted ''2_low''] \<rparr>"
  unfolding overlapping_toggles_def toggle_A_entered_value
  unfolding audio_on_A_value two_streams_value
  by (simp add: startAudioStream_acquire_def emit_def Let_def)

lemma reachable_overlapping_toggles: "reachable overlapping_toggles"
  unfolding overlapping_toggles_def toggle_A_entered_def toggle_B_suspended_def
  by (intro reachable.intros reachable_audio_on_A)

text \<open>
  C3. The code does not keep the audio channel exclusive when two calls of
  \<^verbatim>\<open>toggleAudio\<close> overlap. The first camera holds the audio. A call for the second
  camera releases it and is suspended at the \<^verbatim>\<open>await\<close> of \<^verbatim>\<open>startAudioStream\<close>:
  no stream has audio. A call for the first camera entered at that point finds no
  current audio stream and records the first camera. The suspended call is then resumed
  and records the second camera without looking again: both streams have an entry in
  \<^verbatim>\<open>audioStreams\<close>, so a status query reports \<^verbatim>\<open>hasAudio\<close> for both, and only the
  second is the current audio stream. Both calls return \<^verbatim>\<open>true\<close> and emit
  \<^verbatim>\<open>audioStarted\<close>; no \<^verbatim>\<open>audioStopped\<close> is emitted.
\<close>

theorem overlapping_toggleAudio_two_owners:
  "reachable overlapping_toggles
   \<and> map fst (audioStreams audio_on_A) = [''1_low'']
   \<and> currentAudioStream audio_on_A = Some ''1_low''
   \<and> fst (toggleAudio_begin ''2'' ''low'' audio_on_A) = Inr True
   \<and> (\<forall>x. \<not> hasAudio toggle_B_suspended x)
   \<and> currentAudioStream toggle_B_suspended = None
   \<and> fst (toggleAudio_begin ''1'' ''low'' toggle_B_suspended) = Inr True
   \<and> hasAudio toggle_A_entered ''1_low''
   \<and> currentAudioStream toggle_A_entered = Some ''1_low''
   \<and> hasAudio overlapping_toggles ''1_low''
   \<and> hasAudio overlapping_toggles ''2_low''
   \<and> isCurrentAudio overlapping_toggles ''2_low''
   \<and> \<not> isCurrentAudio overlapping_toggles ''1_low''
   \<and> events overlapping_toggles
       = events audio_on_A @ [AudioStarted ''1_low'', AudioStarted ''2_low'']"
proof -
  have a: "map fst (audioStreams audio_on_A) = [''1_low'']"
    "currentAudioStream audio_on_A = Some ''1_low''"
    by (simp_all add: audio_on_A_fields)
  have a': "hasAudio audio_on_A ''1_low''"
    by (simp add: hasAudio_def audio_on_A_fields)
  have b: "(\<forall>x. \<not> hasAudio toggle_B_suspended x)" "currentAudioStream toggle_B_suspended = None"
    unfolding toggle_B_suspended_value by (simp_all add: hasAudio_def)
  have c: "hasAudio toggle_A_entered ''1_low''"
    "currentAudioStream toggle_A_entered = Some ''1_low''"
    unfolding toggle_A_entered_value using a a' by simp_all
  have d: "hasAudio overlapping_toggles ''1_low''" "hasAudio overlapping_toggles ''2_low''"
    "isCurrentAudio overlapping_toggles ''2_low''"
    "\<not> isCurrentAudio overlapping_toggles ''1_low''"
    "events overlapping_toggles
       = events audio_on_A @ [AudioStarted ''1_low'', AudioStarted ''2_low'']"
    unfolding overlapping_toggles_value
    by (simp_all add: hasAudio_def isCurrentAudio_def audio_on_A_fields)
  from reachable_overlapping_toggles a toggle_B_suspended_result b toggle_A_entered_result c d
  show ?thesis by (intro conjI)
qed

subsection \<open>The connection ceiling and an existing key\<close>







lemma stopStream_rest_servers: "servers (stopStream_rest k s) = servers s"
  by simp







end
